theory Spec2Isabelle
  imports Main "HOL-Library.Sublist" "HOL-Library.Char_ord" "HOL-Library.List_Lexorder"
begin

section \<open>Strings of the source language\<close>

text \<open>
  The TypeScript sources work on JavaScript strings. They are embedded as HOL strings
  (lists of characters). Case conversion, the identifier character classes and the
  white space that \<^verbatim>\<open>trim\<close> removes are modelled on ASCII, the alphabet of the
  identifiers the pipeline is about; a character outside ASCII is left unchanged by
  the case conversions and is not white space.
\<close>

definition upperChar :: "char \<Rightarrow> char" where
  "upperChar c =
     (let n = (of_char c :: nat) in if 97 \<le> n \<and> n \<le> 122 then char_of (n - 32) else c)"

definition lowerChar :: "char \<Rightarrow> char" where
  "lowerChar c =
     (let n = (of_char c :: nat) in if 65 \<le> n \<and> n \<le> 90 then char_of (n + 32) else c)"

definition toUpperCase :: "string \<Rightarrow> string" where
  "toUpperCase s = map upperChar s"

definition toLowerCase :: "string \<Rightarrow> string" where
  "toLowerCase s = map lowerChar s"

text \<open>\<^verbatim>\<open>s.charAt(0)\<close>: the first character as a string, the empty string when there is none.\<close>

definition charAt0 :: "string \<Rightarrow> string" where
  "charAt0 s = take 1 s"

text \<open>\<^verbatim>\<open>s.slice(n)\<close> for a literal \<open>n \<ge> 0\<close>.\<close>

definition sliceFrom :: "nat \<Rightarrow> string \<Rightarrow> string" where
  "sliceFrom n s = drop n s"

text \<open>\<^verbatim>\<open>s.slice(0, -n)\<close>: a negative end counts from the end of the string and is
  clamped at the start.\<close>

definition sliceDropLast :: "nat \<Rightarrow> string \<Rightarrow> string" where
  "sliceDropLast n s = take (length s - n) s"

text \<open>\<^verbatim>\<open>s.endsWith(suf)\<close>.\<close>

definition endsWith :: "string \<Rightarrow> string \<Rightarrow> bool" where
  "endsWith s suf = (length suf \<le> length s \<and> drop (length s - length suf) s = suf)"

text \<open>\<^verbatim>\<open>s.split(c)\<close> for a one-character separator: the empty string splits into one
  empty word, and adjacent separators give empty words.\<close>

fun split :: "char \<Rightarrow> string \<Rightarrow> string list" where
  "split c [] = [[]]"
| "split c (x # xs) =
     (if x = c then [] # split c xs
      else (case split c xs of [] \<Rightarrow> [[x]] | w # ws \<Rightarrow> (x # w) # ws))"

text \<open>\<^verbatim>\<open>parts.join(sep)\<close>.\<close>

fun join :: "string \<Rightarrow> string list \<Rightarrow> string" where
  "join sep [] = []"
| "join sep [w] = w"
| "join sep (w # v # ws) = w @ sep @ join sep (v # ws)"

section \<open>ORM renderer: identifier conversion\<close>

text \<open>\<^verbatim>\<open>toPascalCase\<close>, \<^verbatim>\<open>toCamelCase\<close>, \<^verbatim>\<open>toSingular\<close> and \<^verbatim>\<open>toModelName\<close>
  of the Prisma generator (the version with the double-s guard and the derived
  foreign-key field names).\<close>

definition toPascalCase :: "string \<Rightarrow> string" where
  "toPascalCase name =
     join [] (map (\<lambda>word. toUpperCase (charAt0 word) @ toLowerCase (sliceFrom 1 word))
                  (split (CHR ''_'') name))"


definition toSingular :: "string \<Rightarrow> string" where
  "toSingular name =
     (if length name \<le> 1 then name
      else if endsWith name ''ss'' then name
      else if endsWith name ''ies'' then sliceDropLast 3 name @ ''y''
      else if endsWith name ''ves'' then sliceDropLast 3 name @ ''f''
      else if endsWith name ''ses'' then sliceDropLast 2 name
      else if endsWith name ''xes'' then sliceDropLast 2 name
      else if endsWith name ''ches'' then sliceDropLast 2 name
      else if endsWith name ''shes'' then sliceDropLast 2 name
      else if endsWith name ''s'' then sliceDropLast 1 name
      else name)"

definition toModelName :: "string \<Rightarrow> string" where
  "toModelName tableName =
     (let words = split (CHR ''_'') tableName;
          singularWords = map (\<lambda>word. toSingular word) words;
          singularTableName = join ''_'' singularWords
      in toPascalCase singularTableName)"



subsection \<open>The naming rule in the words of the specification\<close>

text \<open>The suffix cascade as the specification lists it, on one word: a word ending in
  double s is unchanged, \<open>-ies\<close> becomes \<open>-y\<close>, \<open>-ves\<close> becomes \<open>-f\<close>, \<open>-ses\<close>,
  \<open>-xes\<close>, \<open>-ches\<close> and \<open>-shes\<close> lose their last two characters, a trailing \<open>-s\<close> is
  dropped, and any other word is unchanged.\<close>

definition stem :: "nat \<Rightarrow> string \<Rightarrow> string" where
  "stem n w = rev (drop n (rev w))"

definition cascadeClaimed :: "string \<Rightarrow> string" where
  "cascadeClaimed w =
     (if suffix ''ss'' w then w
      else if suffix ''ies'' w then stem 3 w @ ''y''
      else if suffix ''ves'' w then stem 3 w @ ''f''
      else if suffix ''ses'' w \<or> suffix ''xes'' w \<or> suffix ''ches'' w \<or> suffix ''shes'' w
        then stem 2 w
      else if suffix ''s'' w then stem 1 w
      else w)"

text \<open>The same cascade, with words of at most one character left as they are.\<close>

definition cascadeGuarded :: "string \<Rightarrow> string" where
  "cascadeGuarded w = (if length w \<le> 1 then w else cascadeClaimed w)"

definition capitalize :: "string \<Rightarrow> string" where
  "capitalize w = (case w of [] \<Rightarrow> [] | c # cs \<Rightarrow> upperChar c # map lowerChar cs)"

definition modelNameClaimed :: "string \<Rightarrow> string" where
  "modelNameClaimed tableName =
     concat (map (\<lambda>w. capitalize (cascadeClaimed w)) (split (CHR ''_'') tableName))"

definition modelNameGuarded :: "string \<Rightarrow> string" where
  "modelNameGuarded tableName =
     concat (map (\<lambda>w. capitalize (cascadeGuarded w)) (split (CHR ''_'') tableName))"

section \<open>JavaScript containers\<close>

text \<open>
  A plain object used as a dictionary, and a \<^verbatim>\<open>Map\<close>, keep their keys in insertion
  order; assigning to a key that is present replaces the value in place. Both are
  association lists with that update. \<^verbatim>\<open>Object.keys\<close>, \<^verbatim>\<open>Object.values\<close> and
  \<^verbatim>\<open>Object.entries\<close> are \<open>map fst\<close>, \<open>map snd\<close> and the list itself; a lookup is
  \<open>map_of\<close>. An object never holds a key twice: the lists that stand for an input object
  are assumed to have distinct keys (\<open>wfSchema\<close> below). Keys that JavaScript treats
  specially (array indices, which are enumerated first, and the names of
  \<^verbatim>\<open>Object.prototype\<close>) are outside the model. A \<^verbatim>\<open>Set\<close> is a list without
  repetition, in insertion order.
\<close>

fun objSet :: "'k \<Rightarrow> 'v \<Rightarrow> ('k \<times> 'v) list \<Rightarrow> ('k \<times> 'v) list" where
  "objSet k v [] = [(k, v)]"
| "objSet k v (p # ps) = (if fst p = k then (k, v) # ps else p # objSet k v ps)"

definition setAdd :: "'a \<Rightarrow> 'a list \<Rightarrow> 'a list" where
  "setAdd x xs = (if x \<in> set xs then xs else xs @ [x])"

definition setDelete :: "'a \<Rightarrow> 'a list \<Rightarrow> 'a list" where
  "setDelete x xs = removeAll x xs"

section \<open>Data model\<close>

subsection \<open>Editor graph (identifier-keyed)\<close>

datatype DefaultKind = Autoincrement | Uuid | Now | Value

record Default =
  dkind :: DefaultKind
  dvalue :: "string option"

record Column =
  col_id :: string
  col_name :: string
  col_type :: string
  col_primaryKey :: bool
  col_nullable :: bool
  col_unique :: bool
  col_default :: "Default option"

record Table =
  tbl_id :: string
  tbl_name :: string
  tbl_columns :: "Column list"

record Relation =
  rel_id :: string
  fromTableId :: string
  fromColumnId :: string
  toTableId :: string
  toColumnId :: string

text \<open>What \<^verbatim>\<open>denormalizeSchema\<close> returns; \<open>'p\<close> is the type of a position \<open>{x, y}\<close>,
  which the pipeline only carries along.\<close>

record 'p EditorState =
  es_tables :: "Table list"
  es_relations :: "Relation list"
  es_positions :: "(string \<times> 'p) list option"

subsection \<open>Canonical schema (name-keyed)\<close>

record ForeignKey =
  fk_table :: string
  fk_column :: string

record NormalizedColumn =
  n_name :: string
  n_type :: string
  n_primaryKey :: bool
  n_nullable :: bool
  n_unique :: bool
  n_foreignKey :: "ForeignKey option"
  n_default :: "Default option"

record NormalizedTable =
  t_name :: string
  t_columns :: "(string \<times> NormalizedColumn) list"

record 'p NormalizedSchema =
  tables :: "(string \<times> NormalizedTable) list"
  positions :: "(string \<times> 'p) list option"

text \<open>The invariant of the object representation: no key occurs twice, in the table
  dictionary and in every column dictionary.\<close>

definition wfSchema :: "'p NormalizedSchema \<Rightarrow> bool" where
  "wfSchema schema =
     (distinct (map fst (tables schema)) \<and>
      list_all (\<lambda>(tableName, table). distinct (map fst (t_columns table))) (tables schema))"

section \<open>Normalizer\<close>

text \<open>The key \<^verbatim>\<open>`${table.id}::${column.id}`\<close> of the two column-level maps.\<close>

definition columnKey :: "string \<Rightarrow> string \<Rightarrow> string" where
  "columnKey tableId columnId = tableId @ ''::'' @ columnId"

text \<open>The first loop of \<^verbatim>\<open>normalizeSchema\<close>: the maps table id \<open>\<rightarrow>\<close> table name and
  column key \<open>\<rightarrow>\<close> (table id, column name).\<close>

definition populateTable ::
  "Table \<Rightarrow> (string \<times> string) list \<times> (string \<times> string \<times> string) list
     \<Rightarrow> (string \<times> string) list \<times> (string \<times> string \<times> string) list" where
  "populateTable table maps =
     (objSet (tbl_id table) (tbl_name table) (fst maps),
      fold (\<lambda>column m. objSet (columnKey (tbl_id table) (col_id column))
                                  (tbl_id table, col_name column) m)
           (tbl_columns table) (snd maps))"

definition lookupMaps ::
  "Table list \<Rightarrow> (string \<times> string) list \<times> (string \<times> string \<times> string) list" where
  "lookupMaps tbls = fold populateTable tbls ([], [])"

text \<open>The second loop: one relation. A lookup that fails, and a table name that is the
  empty string (which JavaScript's \<^verbatim>\<open>!name\<close> also rejects), skip the relation; a
  column entry is an object and passes the test whenever it is found.\<close>

definition addRelation ::
  "(string \<times> string) list \<Rightarrow> (string \<times> string \<times> string) list \<Rightarrow> Relation
     \<Rightarrow> (string \<times> ForeignKey) list \<Rightarrow> (string \<times> ForeignKey) list" where
  "addRelation tableNameMap columnNameMap relation foreignKeyMap =
     (case (map_of tableNameMap (fromTableId relation),
            map_of columnNameMap (columnKey (fromTableId relation) (fromColumnId relation)),
            map_of tableNameMap (toTableId relation),
            map_of columnNameMap (columnKey (toTableId relation) (toColumnId relation))) of
        (Some sourceTableName, Some sourceColumnInfo, Some targetTableName, Some targetColumnInfo) \<Rightarrow>
          if sourceTableName = [] \<or> targetTableName = [] then foreignKeyMap
          else objSet (columnKey (toTableId relation) (toColumnId relation))
                 \<lparr>fk_table = sourceTableName, fk_column = snd sourceColumnInfo\<rparr> foreignKeyMap
      | _ \<Rightarrow> foreignKeyMap)"

definition buildForeignKeyMap :: "Table list \<Rightarrow> Relation list \<Rightarrow> (string \<times> ForeignKey) list" where
  "buildForeignKeyMap tbls relations =
     (let maps = lookupMaps tbls
      in fold (addRelation (fst maps) (snd maps)) relations [])"

text \<open>The third loop: one canonical column per editor column, one canonical table per
  editor table, stored under their names.\<close>

definition normalizeColumn :: "(string \<times> ForeignKey) list \<Rightarrow> Table \<Rightarrow> Column \<Rightarrow> NormalizedColumn" where
  "normalizeColumn foreignKeyMap table column =
     \<lparr>n_name = col_name column, n_type = col_type column,
      n_primaryKey = col_primaryKey column, n_nullable = col_nullable column,
      n_unique = col_unique column,
      n_foreignKey = map_of foreignKeyMap (columnKey (tbl_id table) (col_id column)),
      n_default = col_default column\<rparr>"

definition normalizeTable ::
  "(string \<times> ForeignKey) list \<Rightarrow> Table \<Rightarrow> (string \<times> NormalizedTable) list
     \<Rightarrow> (string \<times> NormalizedTable) list" where
  "normalizeTable foreignKeyMap table normalizedTables =
     (let columns = fold (\<lambda>column cols. objSet (col_name column)
                                 (normalizeColumn foreignKeyMap table column) cols)
                         (tbl_columns table) []
      in objSet (tbl_name table) \<lparr>t_name = tbl_name table, t_columns = columns\<rparr> normalizedTables)"

text \<open>Positions are re-keyed from table id to table name; an id that does not resolve,
  or resolves to the empty name, is dropped, and an empty result is left out.\<close>

definition normalizePositions ::
  "(string \<times> string) list \<Rightarrow> (string \<times> 'p) list option \<Rightarrow> (string \<times> 'p) list option" where
  "normalizePositions tableNameMap ps =
     (case ps of
        None \<Rightarrow> None
      | Some entries \<Rightarrow>
          if entries = [] then None
          else
            (let positionsByTableName =
                   fold (\<lambda>(tableId, position) acc.
                           (case map_of tableNameMap tableId of
                              None \<Rightarrow> acc
                            | Some tableName \<Rightarrow>
                                if tableName = [] then acc else objSet tableName position acc))
                        entries []
             in if positionsByTableName = [] then None else Some positionsByTableName))"

definition normalizeSchema ::
  "Table list \<Rightarrow> Relation list \<Rightarrow> (string \<times> 'p) list option \<Rightarrow> 'p NormalizedSchema" where
  "normalizeSchema tbls relations ps =
     (let foreignKeyMap = buildForeignKeyMap tbls relations
      in \<lparr>tables = fold (normalizeTable foreignKeyMap) tbls [],
          positions = normalizePositions (fst (lookupMaps tbls)) ps\<rparr>)"

section \<open>Denormalizer\<close>

text \<open>
  \<^verbatim>\<open>crypto.randomUUID()\<close> is the only effect of \<^verbatim>\<open>denormalizeSchema\<close>. The sequence
  of values it returns is the parameter \<open>gen\<close> (\<open>gen n\<close> is the result of the call
  number \<open>n\<close>), and the number of calls made so far is threaded through the loops.
\<close>

definition denormColumn ::
  "(nat \<Rightarrow> string) \<Rightarrow> string \<times> NormalizedColumn
     \<Rightarrow> nat \<times> (string \<times> string) list \<times> Column list
     \<Rightarrow> nat \<times> (string \<times> string) list \<times> Column list" where
  "denormColumn gen entry st =
     (case st of (n, columnMap, columns) \<Rightarrow>
        (let columnId = gen n;
             column = snd entry
         in (Suc n, objSet (fst entry) columnId columnMap,
             columns @ [\<lparr>col_id = columnId, col_name = n_name column, col_type = n_type column,
                          col_primaryKey = n_primaryKey column, col_nullable = n_nullable column,
                          col_unique = n_unique column, col_default = n_default column\<rparr>])))"

definition denormTable ::
  "(nat \<Rightarrow> string) \<Rightarrow> string \<times> NormalizedTable
     \<Rightarrow> nat \<times> (string \<times> string \<times> (string \<times> string) list) list \<times> Table list
     \<Rightarrow> nat \<times> (string \<times> string \<times> (string \<times> string) list) list \<times> Table list" where
  "denormTable gen entry st =
     (case st of (n, tableMap, tbls) \<Rightarrow>
        (let tableId = gen n;
             table = snd entry
         in (case fold (denormColumn gen) (t_columns table) (Suc n, [], []) of
               (n', columnMap, columns) \<Rightarrow>
                 (n', objSet (fst entry) (tableId, columnMap) tableMap,
                  tbls @ [\<lparr>tbl_id = tableId, tbl_name = t_name table, tbl_columns = columns\<rparr>]))))"

text \<open>Step 2, one column: a relation from the referenced (primary-key) column to this
  column. It is skipped when the referenced table or column is not in the id maps, or an
  id is the empty string; \<^verbatim>\<open>randomUUID\<close> is called only when a relation is pushed.\<close>

definition denormRelation ::
  "(nat \<Rightarrow> string) \<Rightarrow> (string \<times> string \<times> (string \<times> string) list) list
     \<Rightarrow> string \<times> (string \<times> string) list \<Rightarrow> string \<times> NormalizedColumn
     \<Rightarrow> nat \<times> Relation list \<Rightarrow> nat \<times> Relation list" where
  "denormRelation gen tableMap fkTableInfo entry st =
     (case n_foreignKey (snd entry) of
        None \<Rightarrow> st
      | Some fk \<Rightarrow>
          (case map_of tableMap (fk_table fk) of
             None \<Rightarrow> st
           | Some pkTableInfo \<Rightarrow>
               (case (map_of (snd fkTableInfo) (fst entry), map_of (snd pkTableInfo) (fk_column fk)) of
                  (Some fkColumnId, Some pkColumnId) \<Rightarrow>
                    if fkColumnId \<noteq> [] \<and> pkColumnId \<noteq> [] then
                      (Suc (fst st),
                       snd st @ [\<lparr>rel_id = gen (fst st),
                                  fromTableId = fst pkTableInfo, fromColumnId = pkColumnId,
                                  toTableId = fst fkTableInfo, toColumnId = fkColumnId\<rparr>])
                    else st
                | _ \<Rightarrow> st)))"

definition denormRelations ::
  "(nat \<Rightarrow> string) \<Rightarrow> (string \<times> string \<times> (string \<times> string) list) list
     \<Rightarrow> string \<times> NormalizedTable \<Rightarrow> nat \<times> Relation list \<Rightarrow> nat \<times> Relation list" where
  "denormRelations gen tableMap entry st =
     (case map_of tableMap (fst entry) of
        None \<Rightarrow> st
      | Some fkTableInfo \<Rightarrow>
          fold (denormRelation gen tableMap fkTableInfo) (t_columns (snd entry)) st)"

definition denormPositions ::
  "(string \<times> string \<times> (string \<times> string) list) list \<Rightarrow> (string \<times> 'p) list option
     \<Rightarrow> (string \<times> 'p) list option" where
  "denormPositions tableMap ps =
     (case ps of
        None \<Rightarrow> None
      | Some entries \<Rightarrow>
          (let positionsByTableId =
                 fold (\<lambda>(tableName, position) acc.
                         (case map_of tableMap tableName of
                            None \<Rightarrow> acc
                          | Some tableInfo \<Rightarrow> objSet (fst tableInfo) position acc))
                      entries []
           in if positionsByTableId = [] then None else Some positionsByTableId))"

definition denormalizeSchema :: "(nat \<Rightarrow> string) \<Rightarrow> 'p NormalizedSchema \<Rightarrow> 'p EditorState" where
  "denormalizeSchema gen schema =
     (case fold (denormTable gen) (tables schema) (0, [], []) of
        (n, tableMap, tbls) \<Rightarrow>
          (case fold (denormRelations gen tableMap) (tables schema) (n, []) of
             (n', relations) \<Rightarrow>
               \<lparr>es_tables = tbls, es_relations = relations,
                es_positions = denormPositions tableMap (positions schema)\<rparr>))"

section \<open>Validator\<close>

definition sq :: string where
  "sq = [CHR 0x27]"


definition nl :: string where
  "nl = [CHR 0x0A]"


























definition isAutoincrement :: "NormalizedColumn \<Rightarrow> bool" where
  "isAutoincrement column =
     (case n_default column of None \<Rightarrow> False | Some d \<Rightarrow> dkind d = Autoincrement)"




section \<open>Generation guard\<close>

text \<open>Decimal digits of a number, as a template literal prints it.\<close>

function showNat :: "nat \<Rightarrow> string" where
  "showNat n =
     (if n < 10 then [char_of (48 + n)] else showNat (n div 10) @ [char_of (48 + n mod 10)])"
  by pat_completeness auto
termination
  by (relation "measure id") auto

datatype GeneratorValidationError = GeneratorValidationError string

text \<open>The map table name \<open>\<rightarrow>\<close> set of its primary-key column keys.\<close>

definition pkColumnsOf :: "(string \<times> NormalizedTable) list \<Rightarrow> (string \<times> string list) list" where
  "pkColumnsOf tbls =
     fold (\<lambda>entry m.
             objSet (fst entry)
               (fold (\<lambda>centry pks. if n_primaryKey (snd centry) then setAdd (fst centry) pks else pks)
                     (t_columns (snd entry)) [])
               m)
          tbls []"

definition fkOnPkMessage :: "string \<Rightarrow> string \<Rightarrow> string" where
  "fkOnPkMessage tableName columnName =
     ''CRITICAL: Column '' @ sq @ columnName @ sq @ '' in table '' @ sq @ tableName @ sq
     @ '' is marked as PRIMARY KEY but has foreignKey metadata. ''
     @ ''Foreign keys can only exist on non-primary key columns.''"

definition fkTableMissingMessage :: "string \<Rightarrow> string \<Rightarrow> string \<Rightarrow> string" where
  "fkTableMissingMessage tableName columnName refTable =
     ''FK ERROR: Column '' @ sq @ columnName @ sq @ '' in table '' @ sq @ tableName @ sq
     @ '' references non-existent table '' @ sq @ refTable @ sq"

definition fkColumnMissingMessage :: "string \<Rightarrow> string \<Rightarrow> string \<Rightarrow> string \<Rightarrow> string" where
  "fkColumnMissingMessage tableName columnName refTable refColumn =
     ''FK ERROR: Column '' @ sq @ columnName @ sq @ '' in table '' @ sq @ tableName @ sq
     @ '' references non-existent column '' @ sq @ refColumn @ sq @ '' in table '' @ sq
     @ refTable @ sq"

definition fkNotPkMessage :: "string \<Rightarrow> string \<Rightarrow> string \<Rightarrow> string \<Rightarrow> string" where
  "fkNotPkMessage tableName columnName refTable refColumn =
     ''FK ERROR: Column '' @ sq @ columnName @ sq @ '' in table '' @ sq @ tableName @ sq
     @ '' references column '' @ sq @ refColumn @ sq @ '' in table '' @ sq @ refTable @ sq
     @ '', '' @ ''but '' @ sq @ refColumn @ sq
     @ '' is NOT a primary key. Foreign keys must reference primary key columns.''"

text \<open>The body of the inner loop of the guard's \<^verbatim>\<open>validateForeignKeys\<close>: check 1
  (foreign key on a primary-key column), then the checks of the target, which stop at
  the first that fails.\<close>

definition guardColumnErrors ::
  "(string \<times> NormalizedTable) list \<Rightarrow> (string \<times> string list) list \<Rightarrow> string
     \<Rightarrow> string \<times> NormalizedColumn \<Rightarrow> string list" where
  "guardColumnErrors tbls pkColumns tableName entry =
     (let columnName = fst entry; column = snd entry in
      (if n_foreignKey column \<noteq> None \<and> n_primaryKey column
       then [fkOnPkMessage tableName columnName] else [])
      @ (case n_foreignKey column of
           None \<Rightarrow> []
         | Some fk \<Rightarrow>
             (let refTable = fk_table fk; refColumn = fk_column fk in
              case map_of tbls refTable of
                None \<Rightarrow> [fkTableMissingMessage tableName columnName refTable]
              | Some target \<Rightarrow>
                  (case map_of (t_columns target) refColumn of
                     None \<Rightarrow> [fkColumnMissingMessage tableName columnName refTable refColumn]
                   | Some targetColumn \<Rightarrow>
                       (case map_of pkColumns refTable of
                          None \<Rightarrow> [fkNotPkMessage tableName columnName refTable refColumn]
                        | Some refPks \<Rightarrow>
                            if refColumn \<in> set refPks then []
                            else [fkNotPkMessage tableName columnName refTable refColumn])))))"

definition guardErrors :: "'p NormalizedSchema \<Rightarrow> string list" where
  "guardErrors schema =
     (let pkColumns = pkColumnsOf (tables schema) in
      fold (\<lambda>entry errs1.
              fold (\<lambda>centry errs2.
                      errs2 @ guardColumnErrors (tables schema) pkColumns (fst entry) centry)
                   (t_columns (snd entry)) errs1)
           (tables schema) [])"

text \<open>The message of the aggregated error: a header with the number of errors, then
  the errors, each after its 1-based index.\<close>

definition aggregateMessage :: "string list \<Rightarrow> string" where
  "aggregateMessage errs =
     ''Schema validation failed with '' @ showNat (length errs) @ '' error(s):'' @ nl @ nl
     @ join nl (map (\<lambda>(i, err). showNat (i + 1) @ ''. '' @ err) (enumerate 0 errs))"

definition validateForeignKeysForGeneration ::
  "'p NormalizedSchema \<Rightarrow> GeneratorValidationError + unit" where
  "validateForeignKeysForGeneration schema =
     (let errs = guardErrors schema in
      if length errs > 0 then Inl (GeneratorValidationError (aggregateMessage errs))
      else Inr ())"

definition validateSchemaForGeneration ::
  "'p NormalizedSchema \<Rightarrow> GeneratorValidationError + unit" where
  "validateSchemaForGeneration schema = validateForeignKeysForGeneration schema"

section \<open>SQL renderer\<close>

definition mapTypeToPostgres :: "string \<Rightarrow> string" where
  "mapTypeToPostgres schemaType =
     (case map_of [(''int'', ''INT''), (''varchar'', ''VARCHAR''), (''text'', ''TEXT''),
                   (''boolean'', ''BOOLEAN''), (''timestamp'', ''TIMESTAMP''), (''uuid'', ''UUID'')]
                  (toLowerCase schemaType) of
        Some t \<Rightarrow> t
      | None \<Rightarrow> toUpperCase schemaType)"

definition escapeSQLValue :: "string \<Rightarrow> string" where
  "escapeSQLValue v = sq @ concat (map (\<lambda>c. if [c] = sq then sq @ sq else [c]) v) @ sq"

definition generateColumnDefinition :: "NormalizedColumn \<Rightarrow> string" where
  "generateColumnDefinition column =
     (let parts1 = [n_name column]
                   @ (if isAutoincrement column then [''SERIAL'']
                      else [mapTypeToPostgres (n_type column)]);
          parts2 = parts1
                   @ (case n_default column of
                        None \<Rightarrow> []
                      | Some d \<Rightarrow>
                          if dkind d = Uuid then [''DEFAULT gen_random_uuid()'']
                          else if dkind d = Now then [''DEFAULT now()'']
                          else if dkind d = Value then
                            (case dvalue d of
                               Some v \<Rightarrow> [''DEFAULT '' @ escapeSQLValue v]
                             | None \<Rightarrow> [])
                          else []);
          parts3 = parts2 @ (if n_unique column then [''UNIQUE''] else []);
          parts4 = parts3 @ (if \<not> n_nullable column then [''NOT NULL''] else [])
      in join '' '' parts4)"

text \<open>
  \<^verbatim>\<open>orderTables\<close>. The dependency map gives, for each table, the set of tables its
  foreign keys name. \<^verbatim>\<open>visit\<close> is recursive through the loop over the dependencies
  and updates the three collections \<open>ordered\<close>, \<open>visited\<close> and \<open>visiting\<close>; the state
  is passed explicitly. The recursion carries fuel: a call that runs out of fuel has
  the value \<open>None\<close>. \<^verbatim>\<open>orderTables\<close> starts with one more unit of fuel than the
  schema has tables.
\<close>

definition dependenciesOf :: "(string \<times> NormalizedTable) list \<Rightarrow> (string \<times> string list) list" where
  "dependenciesOf tbls =
     fold (\<lambda>entry m.
             objSet (fst entry)
               (fold (\<lambda>column deps. case n_foreignKey column of
                                        None \<Rightarrow> deps
                                      | Some fk \<Rightarrow> setAdd (fk_table fk) deps)
                     (map snd (t_columns (snd entry))) [])
               m)
          tbls []"

record VisitState =
  ordered :: "string list"
  visited :: "string list"
  visiting :: "string list"

fun visit ::
    "nat \<Rightarrow> (string \<times> NormalizedTable) list \<Rightarrow> (string \<times> string list) list \<Rightarrow> string
       \<Rightarrow> VisitState \<Rightarrow> VisitState option"
  and visitDeps ::
    "nat \<Rightarrow> (string \<times> NormalizedTable) list \<Rightarrow> (string \<times> string list) list \<Rightarrow> string list
       \<Rightarrow> VisitState \<Rightarrow> VisitState option" where
  "visit 0 tbls dependencies tableName st = None"
| "visit (Suc fuel) tbls dependencies tableName st =
     (if tableName \<in> set (visiting st) then Some st
      else if tableName \<in> set (visited st) then Some st
      else
        (let st1 = st\<lparr>visiting := setAdd tableName (visiting st)\<rparr>;
             deps = (case map_of dependencies tableName of Some d \<Rightarrow> d | None \<Rightarrow> [])
         in case visitDeps fuel tbls dependencies deps st1 of
              None \<Rightarrow> None
            | Some st2 \<Rightarrow>
                Some (st2\<lparr>visiting := setDelete tableName (visiting st2),
                          visited := setAdd tableName (visited st2),
                          ordered := ordered st2 @ [tableName]\<rparr>)))"
| "visitDeps fuel tbls dependencies [] st = Some st"
| "visitDeps fuel tbls dependencies (dep # deps) st =
     (if map_of tbls dep \<noteq> None then
        (case visit fuel tbls dependencies dep st of
           None \<Rightarrow> None
         | Some st' \<Rightarrow> visitDeps fuel tbls dependencies deps st')
      else visitDeps fuel tbls dependencies deps st)"

fun visitAll ::
  "nat \<Rightarrow> (string \<times> NormalizedTable) list \<Rightarrow> (string \<times> string list) list \<Rightarrow> string list
     \<Rightarrow> VisitState \<Rightarrow> VisitState option" where
  "visitAll fuel tbls dependencies [] st = Some st"
| "visitAll fuel tbls dependencies (tableName # rest) st =
     (case visit fuel tbls dependencies tableName st of
        None \<Rightarrow> None
      | Some st' \<Rightarrow> visitAll fuel tbls dependencies rest st')"

definition orderTablesFuel :: "nat \<Rightarrow> 'p NormalizedSchema \<Rightarrow> string list option" where
  "orderTablesFuel fuel schema =
     (let tableNames = map fst (tables schema);
          dependencies = dependenciesOf (tables schema)
      in map_option ordered
           (visitAll fuel (tables schema) dependencies tableNames
              \<lparr>ordered = [], visited = [], visiting = []\<rparr>))"

definition orderTables :: "'p NormalizedSchema \<Rightarrow> string list option" where
  "orderTables schema = orderTablesFuel (Suc (length (tables schema))) schema"

text \<open>\<^verbatim>\<open>generateTableSQL\<close>: the column clauses (with the inline marker unless the key is
  composite), the table-level key clause of a composite key, then the foreign-key
  clauses of the columns that are not primary keys.\<close>

definition columnClause :: "bool \<Rightarrow> NormalizedColumn \<Rightarrow> string" where
  "columnClause isCompositePK column =
     (let def = generateColumnDefinition column;
          def' = (if \<not> isCompositePK \<and> n_primaryKey column then def @ '' PRIMARY KEY'' else def)
      in ''  '' @ def')"

definition foreignKeyClause :: "NormalizedColumn \<Rightarrow> ForeignKey \<Rightarrow> string" where
  "foreignKeyClause column fk =
     ''  FOREIGN KEY ('' @ n_name column @ '') REFERENCES '' @ fk_table fk @ ''(''
     @ fk_column fk @ '')''"

definition columnDefsOf :: "NormalizedTable \<Rightarrow> string list" where
  "columnDefsOf table =
     (let columns = map snd (t_columns table);
          pkColumns = filter n_primaryKey columns;
          isCompositePK = (length pkColumns > 1)
      in map (columnClause isCompositePK) columns
         @ (if isCompositePK
            then [''  PRIMARY KEY ('' @ join '', '' (map n_name pkColumns) @ '')'']
            else []))"

definition fkConstraintsOf :: "NormalizedTable \<Rightarrow> string list" where
  "fkConstraintsOf table =
     concat (map (\<lambda>column.
                    case n_foreignKey column of
                      None \<Rightarrow> []
                    | Some fk \<Rightarrow> if \<not> n_primaryKey column then [foreignKeyClause column fk] else [])
                 (map snd (t_columns table)))"

definition generateTableSQL :: "string \<Rightarrow> NormalizedTable \<Rightarrow> string" where
  "generateTableSQL tableName table =
     (let allDefinitions = columnDefsOf table @ fkConstraintsOf table
      in join nl [''CREATE TABLE '' @ t_name table @ '' ('', join ('','' @ nl) allDefinitions, '');''])"

text \<open>\<^verbatim>\<open>generatePostgresSQL\<close>: the guard first; its error is the \<open>Inl\<close> result. The outer
  \<open>option\<close> is the fuel of \<open>orderTables\<close>.\<close>

definition generatePostgresSQL ::
  "'p NormalizedSchema \<Rightarrow> (GeneratorValidationError + string) option" where
  "generatePostgresSQL schema =
     (case validateSchemaForGeneration schema of
        Inl e \<Rightarrow> Some (Inl e)
      | Inr u \<Rightarrow>
          (case orderTables schema of
             None \<Rightarrow> None
           | Some orderedTables \<Rightarrow>
               Some (Inr (join (nl @ nl)
                 (concat (map (\<lambda>tableName.
                            case map_of (tables schema) tableName of
                              None \<Rightarrow> []
                            | Some table \<Rightarrow> [generateTableSQL tableName table])
                          orderedTables))))))"

section \<open>ORM renderer\<close>











section \<open>Example schemas\<close>

definition mkColumn ::
  "string \<Rightarrow> string \<Rightarrow> bool \<Rightarrow> bool \<Rightarrow> bool \<Rightarrow> ForeignKey option \<Rightarrow> Default option
     \<Rightarrow> NormalizedColumn" where
  "mkColumn nm ty pk nu un fk df =
     \<lparr>n_name = nm, n_type = ty, n_primaryKey = pk, n_nullable = nu, n_unique = un,
      n_foreignKey = fk, n_default = df\<rparr>"

text \<open>A table with one primary key and a table with a composite key.\<close>

definition singleTable :: NormalizedTable where
  "singleTable = \<lparr>t_name = ''users'', t_columns =
     [(''id'', mkColumn ''id'' ''int'' True False False None None),
      (''email'', mkColumn ''email'' ''varchar'' False False True None None)]\<rparr>"

definition compositeTable :: NormalizedTable where
  "compositeTable = \<lparr>t_name = ''memberships'', t_columns =
     [(''user_id'', mkColumn ''user_id'' ''int'' True False False None None),
      (''group_id'', mkColumn ''group_id'' ''int'' True False False None None),
      (''role'', mkColumn ''role'' ''varchar'' False True False None None)]\<rparr>"


text \<open>Scenario A of the specification: \<open>users\<close> and \<open>posts\<close>. The specification
  leaves open which columns are nullable and which table the editor created first;
  they are parameters.\<close>

definition usersTable :: "bool \<Rightarrow> bool \<Rightarrow> NormalizedTable" where
  "usersTable n1 n2 = \<lparr>t_name = ''users'', t_columns =
     [(''id'', mkColumn ''id'' ''uuid'' True n1 False None (Some \<lparr>dkind = Uuid, dvalue = None\<rparr>)),
      (''email'', mkColumn ''email'' ''varchar'' False n2 True None None)]\<rparr>"

definition postsTable :: "bool \<Rightarrow> bool \<Rightarrow> bool \<Rightarrow> NormalizedTable" where
  "postsTable n3 n4 n5 = \<lparr>t_name = ''posts'', t_columns =
     [(''id'', mkColumn ''id'' ''int'' True n3 False None
                 (Some \<lparr>dkind = Autoincrement, dvalue = None\<rparr>)),
      (''user_id'', mkColumn ''user_id'' ''int'' False n4 False
                      (Some \<lparr>fk_table = ''users'', fk_column = ''id''\<rparr>) None),
      (''title'', mkColumn ''title'' ''varchar'' False n5 False None None)]\<rparr>"

definition scenarioA ::
  "bool \<Rightarrow> bool \<Rightarrow> bool \<Rightarrow> bool \<Rightarrow> bool \<Rightarrow> bool \<Rightarrow> unit NormalizedSchema" where
  "scenarioA usersFirst n1 n2 n3 n4 n5 =
     \<lparr>tables = (if usersFirst
                 then [(''users'', usersTable n1 n2), (''posts'', postsTable n3 n4 n5)]
                 else [(''posts'', postsTable n3 n4 n5), (''users'', usersTable n1 n2)]),
      positions = None\<rparr>"

text \<open>The two statements expected for scenario A.\<close>

definition notNull :: "bool \<Rightarrow> string" where
  "notNull nullable = (if nullable then [] else '' NOT NULL'')"

definition usersStatement :: "bool \<Rightarrow> bool \<Rightarrow> string" where
  "usersStatement n1 n2 = ''CREATE TABLE users ('' @ nl
     @ ''  id UUID DEFAULT gen_random_uuid()'' @ notNull n1 @ '' PRIMARY KEY,'' @ nl
     @ ''  email VARCHAR UNIQUE'' @ notNull n2 @ nl @ '');''"

definition postsStatement :: "bool \<Rightarrow> bool \<Rightarrow> bool \<Rightarrow> string" where
  "postsStatement n3 n4 n5 = ''CREATE TABLE posts ('' @ nl
     @ ''  id SERIAL'' @ notNull n3 @ '' PRIMARY KEY,'' @ nl
     @ ''  user_id INT'' @ notNull n4 @ '','' @ nl
     @ ''  title VARCHAR'' @ notNull n5 @ '','' @ nl
     @ ''  FOREIGN KEY (user_id) REFERENCES users(id)'' @ nl @ '');''"

section \<open>Specification of the table order\<close>

text \<open>Table \<open>a\<close> depends on table \<open>b\<close>: some column of \<open>a\<close> has a foreign key into \<open>b\<close>,
  and \<open>b\<close> is a table of the schema.\<close>

definition fkDependency :: "'p NormalizedSchema \<Rightarrow> (string \<times> string) set" where
  "fkDependency schema =
     {(a, b). \<exists>table column fk.
        (a, table) \<in> set (tables schema) \<and> column \<in> snd ` set (t_columns table)
        \<and> n_foreignKey column = Some fk \<and> fk_table fk = b
        \<and> b \<in> fst ` set (tables schema)}"

text \<open>\<open>b\<close> stands before \<open>a\<close> in a list.\<close>

definition precedes :: "'a \<Rightarrow> 'a \<Rightarrow> 'a list \<Rightarrow> bool" where
  "precedes b a xs = (\<exists>i j. i < j \<and> j < length xs \<and> xs ! i = b \<and> xs ! j = a)"

text \<open>A schema whose two tables reference each other, and a chain of three tables
  listed against their dependencies.\<close>

definition cyclicSchema :: "unit NormalizedSchema" where
  "cyclicSchema =
     \<lparr>tables =
        [(''a'', \<lparr>t_name = ''a'', t_columns =
            [(''id'', mkColumn ''id'' ''int'' True False False None None),
             (''b_id'', mkColumn ''b_id'' ''int'' False False False
                          (Some \<lparr>fk_table = ''b'', fk_column = ''id''\<rparr>) None)]\<rparr>),
         (''b'', \<lparr>t_name = ''b'', t_columns =
            [(''id'', mkColumn ''id'' ''int'' True False False None None),
             (''a_id'', mkColumn ''a_id'' ''int'' False False False
                          (Some \<lparr>fk_table = ''a'', fk_column = ''id''\<rparr>) None)]\<rparr>)],
      positions = None\<rparr>"

definition chainSchema :: "unit NormalizedSchema" where
  "chainSchema =
     \<lparr>tables =
        [(''c'', \<lparr>t_name = ''c'', t_columns =
            [(''id'', mkColumn ''id'' ''int'' True False False None None),
             (''b_id'', mkColumn ''b_id'' ''int'' False False False
                          (Some \<lparr>fk_table = ''b'', fk_column = ''id''\<rparr>) None)]\<rparr>),
         (''b'', \<lparr>t_name = ''b'', t_columns =
            [(''id'', mkColumn ''id'' ''int'' True False False None None),
             (''a_id'', mkColumn ''a_id'' ''int'' False False False
                          (Some \<lparr>fk_table = ''a'', fk_column = ''id''\<rparr>) None)]\<rparr>),
         (''a'', \<lparr>t_name = ''a'', t_columns =
            [(''id'', mkColumn ''id'' ''int'' True False False None None)]\<rparr>)],
      positions = None\<rparr>"

section \<open>Invariants of the table traversal\<close>

definition okState :: "(string \<times> NormalizedTable) list \<Rightarrow> VisitState \<Rightarrow> bool" where
  "okState tbls st =
     (distinct (ordered st) \<and> set (ordered st) = set (visited st)
      \<and> set (visited st) \<subseteq> fst ` set tbls)"

definition depRel :: "(string \<times> NormalizedTable) list \<Rightarrow> (string \<times> string list) list \<Rightarrow> (string \<times> string) set" where
  "depRel tbls dm =
     {(a, b). b \<in> set (case map_of dm a of Some d \<Rightarrow> d | None \<Rightarrow> []) \<and> b \<in> fst ` set tbls}"

definition before :: "'a \<Rightarrow> 'a \<Rightarrow> 'a list \<Rightarrow> bool" where
  "before b a xs = (\<exists>ys zs. xs = ys @ a # zs \<and> b \<in> set ys)"

definition closedState :: "(string \<times> string) set \<Rightarrow> VisitState \<Rightarrow> bool" where
  "closedState R st = (\<forall>a \<in> set (visited st). \<forall>b. (a, b) \<in> R \<longrightarrow> before b a (ordered st))"

section \<open>Specification of the generation guard\<close>

text \<open>The three rules of the guard, on one column: its foreign key sits on a
  primary-key column; the referenced table is missing; the referenced column is missing
  or is not a primary key. \<open>expectedMessages\<close> lists the messages of the rules a column
  violates, \<open>guardViolated\<close> says that some column of the schema violates a rule.\<close>

definition columnViolatesGuard :: "(string \<times> NormalizedTable) list \<Rightarrow> NormalizedColumn \<Rightarrow> bool" where
  "columnViolatesGuard tbls column =
     (case n_foreignKey column of
        None \<Rightarrow> False
      | Some fk \<Rightarrow>
          n_primaryKey column
          \<or> (case map_of tbls (fk_table fk) of
                None \<Rightarrow> True
              | Some target \<Rightarrow>
                  (case map_of (t_columns target) (fk_column fk) of
                     None \<Rightarrow> True
                   | Some targetColumn \<Rightarrow> \<not> n_primaryKey targetColumn)))"


definition numberedLines :: "string list \<Rightarrow> string list" where
  "numberedLines errs = map (\<lambda>i. showNat (i + 1) @ ''. '' @ errs ! i) [0..<length errs]"

definition expectedMessages ::
  "(string \<times> NormalizedTable) list \<Rightarrow> string \<Rightarrow> string \<times> NormalizedColumn \<Rightarrow> string list" where
  "expectedMessages tbls tableName centry =
     (case n_foreignKey (snd centry) of
        None \<Rightarrow> []
      | Some fk \<Rightarrow>
          (if n_primaryKey (snd centry) then [fkOnPkMessage tableName (fst centry)] else [])
          @ (case map_of tbls (fk_table fk) of
               None \<Rightarrow> [fkTableMissingMessage tableName (fst centry) (fk_table fk)]
             | Some target \<Rightarrow>
                 (case map_of (t_columns target) (fk_column fk) of
                    None \<Rightarrow> [fkColumnMissingMessage tableName (fst centry) (fk_table fk) (fk_column fk)]
                  | Some targetColumn \<Rightarrow>
                      if n_primaryKey targetColumn then []
                      else [fkNotPkMessage tableName (fst centry) (fk_table fk) (fk_column fk)])))"



section \<open>Specification of the editor graph\<close>

text \<open>An editor graph is well formed when table ids are unique and free of the
  separator character of the column keys (they are UUIDs), and column ids are unique
  within their table. \<open>endpoint\<close> resolves a (table id, column id) pair to the names of
  the table and the column. A relation is orphaned when an endpoint does not
  resolve; it survives the filter of the normalizer when both endpoints resolve and
  neither table name is the empty string.\<close>

definition wfGraph :: "Table list \<Rightarrow> bool" where
  "wfGraph tbls =
     (distinct (map tbl_id tbls)
      \<and> (\<forall>t \<in> set tbls. CHR '':'' \<notin> set (tbl_id t) \<and> distinct (map col_id (tbl_columns t))))"

definition findTable :: "Table list \<Rightarrow> string \<Rightarrow> Table option" where
  "findTable tbls tableId = find (\<lambda>t. tbl_id t = tableId) tbls"

definition findColumn :: "Table \<Rightarrow> string \<Rightarrow> Column option" where
  "findColumn table columnId = find (\<lambda>c. col_id c = columnId) (tbl_columns table)"

definition endpoint :: "Table list \<Rightarrow> string \<Rightarrow> string \<Rightarrow> (string \<times> string) option" where
  "endpoint tbls tableId columnId =
     (case findTable tbls tableId of
        None \<Rightarrow> None
      | Some t \<Rightarrow> map_option (\<lambda>c. (tbl_name t, col_name c)) (findColumn t columnId))"

definition orphaned :: "Table list \<Rightarrow> Relation \<Rightarrow> bool" where
  "orphaned tbls r =
     (endpoint tbls (fromTableId r) (fromColumnId r) = None
      \<or> endpoint tbls (toTableId r) (toColumnId r) = None)"

definition survives :: "Table list \<Rightarrow> Relation \<Rightarrow> bool" where
  "survives tbls r =
     (case (endpoint tbls (fromTableId r) (fromColumnId r),
            endpoint tbls (toTableId r) (toColumnId r)) of
        (Some src, Some tgt) \<Rightarrow> fst src \<noteq> [] \<and> fst tgt \<noteq> []
      | _ \<Rightarrow> False)"

definition sourceKey :: "Table list \<Rightarrow> Relation \<Rightarrow> ForeignKey option" where
  "sourceKey tbls r =
     map_option (\<lambda>src. \<lparr>fk_table = fst src, fk_column = snd src\<rparr>)
       (endpoint tbls (fromTableId r) (fromColumnId r))"

definition sameTarget :: "Relation \<Rightarrow> Relation \<Rightarrow> bool" where
  "sameTarget r r' = (toTableId r = toTableId r' \<and> toColumnId r = toColumnId r')"

definition mkEditorColumn :: "string \<Rightarrow> string \<Rightarrow> string \<Rightarrow> bool \<Rightarrow> Column" where
  "mkEditorColumn i nm ty pk =
     \<lparr>col_id = i, col_name = nm, col_type = ty, col_primaryKey = pk, col_nullable = False,
      col_unique = False, col_default = None\<rparr>"

definition ownerColumn :: Column where
  "ownerColumn = mkEditorColumn ''c4'' ''owner_id'' ''int'' False"

definition postsEditorTable :: Table where
  "postsEditorTable =
     \<lparr>tbl_id = ''t3'', tbl_name = ''posts'',
      tbl_columns = [mkEditorColumn ''c3'' ''id'' ''int'' True, ownerColumn]\<rparr>"

definition editorTables :: "Table list" where
  "editorTables =
     [\<lparr>tbl_id = ''t1'', tbl_name = ''users'',
       tbl_columns = [mkEditorColumn ''c1'' ''id'' ''int'' True]\<rparr>,
      \<lparr>tbl_id = ''t2'', tbl_name = ''accounts'',
       tbl_columns = [mkEditorColumn ''c2'' ''id'' ''int'' True]\<rparr>,
      postsEditorTable]"

definition relationFromUsers :: Relation where
  "relationFromUsers =
     \<lparr>rel_id = ''r1'', fromTableId = ''t1'', fromColumnId = ''c1'',
      toTableId = ''t3'', toColumnId = ''c4''\<rparr>"

definition relationFromAccounts :: Relation where
  "relationFromAccounts =
     \<lparr>rel_id = ''r2'', fromTableId = ''t2'', fromColumnId = ''c2'',
      toTableId = ''t3'', toColumnId = ''c4''\<rparr>"

definition orphanRelation :: Relation where
  "orphanRelation =
     \<lparr>rel_id = ''r3'', fromTableId = ''gone'', fromColumnId = ''c9'',
      toTableId = ''t3'', toColumnId = ''c4''\<rparr>"

definition normalizedColumns :: "(string \<times> ForeignKey) list \<Rightarrow> Table \<Rightarrow> (string \<times> NormalizedColumn) list" where
  "normalizedColumns foreignKeyMap table =
     fold (\<lambda>column cols. objSet (col_name column) (normalizeColumn foreignKeyMap table column) cols)
          (tbl_columns table) []"

subsection \<open>The round trip through the canonical schema\<close>



definition tableNames :: "Table list \<Rightarrow> string set" where
  "tableNames tbls = set (map tbl_name tbls)"


definition relationEnds ::
  "Table list \<Rightarrow> Relation list \<Rightarrow> ((string \<times> string) \<times> (string \<times> string)) set" where
  "relationEnds tbls rels =
     set (concat (map (\<lambda>r. case (endpoint tbls (fromTableId r) (fromColumnId r),
                                   endpoint tbls (toTableId r) (toColumnId r)) of
                               (Some src, Some tgt) \<Rightarrow> [(src, tgt)]
                             | _ \<Rightarrow> [])
                      rels))"





text \<open>The output of the denormalizer in closed form, for a schema with distinct keys: the
  \<open>n\<close>-th identifier drawn is \<open>gen n\<close>, one per table followed by one per column of it.\<close>

definition denormColumnOf :: "string \<Rightarrow> NormalizedColumn \<Rightarrow> Column" where
  "denormColumnOf columnId column =
     \<lparr>col_id = columnId, col_name = n_name column, col_type = n_type column,
      col_primaryKey = n_primaryKey column, col_nullable = n_nullable column,
      col_unique = n_unique column, col_default = n_default column\<rparr>"

definition freshColumns :: "(nat \<Rightarrow> string) \<Rightarrow> nat \<Rightarrow> (string \<times> NormalizedColumn) list \<Rightarrow> Column list" where
  "freshColumns gen n cols =
     map (\<lambda>(k, centry). denormColumnOf (gen k) (snd centry)) (zip [n..<n + length cols] cols)"

definition freshColumnMap :: "(nat \<Rightarrow> string) \<Rightarrow> nat \<Rightarrow> (string \<times> NormalizedColumn) list \<Rightarrow> (string \<times> string) list" where
  "freshColumnMap gen n cols =
     map (\<lambda>(k, centry). (fst centry, gen k)) (zip [n..<n + length cols] cols)"












text \<open>A source of fresh identifiers, and graphs on which the round trip loses data:
  two tables of the same name, and a relation from a table without a name.\<close>

definition testGen :: "nat \<Rightarrow> string" where
  "testGen n = CHR ''u'' # replicate n (CHR ''x'')"


definition unnamedTables :: "Table list" where
  "unnamedTables =
     [\<lparr>tbl_id = ''t1'', tbl_name = [],
       tbl_columns = [mkEditorColumn ''c1'' ''id'' ''int'' True]\<rparr>,
      \<lparr>tbl_id = ''t2'', tbl_name = ''posts'',
       tbl_columns = [mkEditorColumn ''c2'' ''owner_id'' ''int'' False]\<rparr>]"

definition relationFromUnnamed :: Relation where
  "relationFromUnnamed =
     \<lparr>rel_id = ''r1'', fromTableId = ''t1'', fromColumnId = ''c1'',
      toTableId = ''t2'', toColumnId = ''c2''\<rparr>"

definition roundTrip :: "(nat \<Rightarrow> string) \<Rightarrow> Table list \<Rightarrow> Relation list \<Rightarrow> unit EditorState" where
  "roundTrip gen tbls rels = denormalizeSchema gen (normalizeSchema tbls rels None)"

subsection \<open>A primary key that is also a foreign key\<close>

text \<open>The schema without the foreign key of the column \<open>cn\<close> of the table \<open>tn\<close>, every
  other field as it was.\<close>

definition clearForeignKey ::
  "string \<Rightarrow> string \<Rightarrow> string \<Rightarrow> string \<times> NormalizedColumn \<Rightarrow> string \<times> NormalizedColumn" where
  "clearForeignKey tn cn tableName centry =
     (fst centry,
      if tableName = tn \<and> fst centry = cn then (snd centry)\<lparr>n_foreignKey := None\<rparr>
      else snd centry)"

definition clearForeignKeyTable ::
  "string \<Rightarrow> string \<Rightarrow> string \<times> NormalizedTable \<Rightarrow> string \<times> NormalizedTable" where
  "clearForeignKeyTable tn cn entry =
     (fst entry,
      (snd entry)\<lparr>t_columns := map (clearForeignKey tn cn (fst entry)) (t_columns (snd entry))\<rparr>)"

definition dropForeignKey :: "string \<Rightarrow> string \<Rightarrow> 'p NormalizedSchema \<Rightarrow> 'p NormalizedSchema" where
  "dropForeignKey tn cn schema =
     schema\<lparr>tables := map (clearForeignKeyTable tn cn) (tables schema)\<rparr>"

text \<open>The fields of a column that the table, column and default rules of the validator
  read.\<close>

definition sameColumnFacts :: "NormalizedColumn \<Rightarrow> NormalizedColumn \<Rightarrow> bool" where
  "sameColumnFacts c' c =
     (n_name c' = n_name c \<and> n_type c' = n_type c \<and> n_primaryKey c' = n_primaryKey c
      \<and> n_default c' = n_default c)"


section \<open>Properties of the string functions\<close>

lemma endsWith_suffix: "endsWith s suf \<longleftrightarrow> suffix suf s"
proof
  assume "endsWith s suf"
  then have "s = take (length s - length suf) s @ suf"
    unfolding endsWith_def by (metis append_take_drop_id)
  then show "suffix suf s" unfolding suffix_def by blast
next
  assume "suffix suf s"
  then obtain zs where "s = zs @ suf" unfolding suffix_def by blast
  then show "endsWith s suf" unfolding endsWith_def by simp
qed

lemma sliceDropLast_stem: "sliceDropLast n w = stem n w"
  by (simp add: sliceDropLast_def stem_def drop_rev)

lemma split_nonempty: "split c s \<noteq> []"
  by (induction s) (auto split: list.splits)

lemma split_words_free: "w \<in> set (split c s) \<Longrightarrow> c \<notin> set w"
  by (induction s arbitrary: w) (auto split: if_splits list.splits)

lemma join_nil_concat: "join [] ws = concat ws"
  by (induction ws rule: induct_list012) auto

lemma split_free: "c \<notin> set w \<Longrightarrow> split c w = [w]"
  by (induction w) auto

lemma split_append_free: "c \<notin> set w \<Longrightarrow> split c (w @ c # rest) = w # split c rest"
  by (induction w) (auto split: list.splits)

lemma split_join:
  "ws \<noteq> [] \<Longrightarrow> \<forall>w \<in> set ws. c \<notin> set w \<Longrightarrow> split c (join [c] ws) = ws"
proof (induction ws rule: induct_list012)
  case 1
  then show ?case by simp
next
  case (2 w)
  then show ?case by (simp add: split_free)
next
  case (3 w v ws)
  then show ?case by (simp add: split_append_free)
qed

section \<open>ORM renderer: model names\<close>

lemma toSingular_cascadeGuarded: "toSingular w = cascadeGuarded w"
  by (simp add: toSingular_def cascadeGuarded_def cascadeClaimed_def endsWith_suffix
      sliceDropLast_stem)

lemma toSingular_free:
  assumes "CHR ''_'' \<notin> set w"
  shows "CHR ''_'' \<notin> set (toSingular w)"
proof -
  have "set (sliceDropLast n w) \<subseteq> set w" for n
    unfolding sliceDropLast_def by (rule set_take_subset)
  with assms have "CHR ''_'' \<notin> set (sliceDropLast n w)" for n by blast
  with assms show ?thesis by (simp add: toSingular_def)
qed

lemma capitalize_eq: "toUpperCase (charAt0 w) @ toLowerCase (sliceFrom 1 w) = capitalize w"
  by (cases w)
    (simp_all add: toUpperCase_def toLowerCase_def charAt0_def sliceFrom_def capitalize_def)

lemma toPascalCase_concat:
  "toPascalCase name = concat (map capitalize (split (CHR ''_'') name))"
  unfolding toPascalCase_def capitalize_eq by (simp add: join_nil_concat)

text \<open>
  Claim C6, as amended. For every table name, \<^verbatim>\<open>toModelName\<close> splits the name on
  underscores, singularizes each word with the suffix cascade (a word ending in double
  s unchanged; \<open>-ies\<close> to \<open>-y\<close>; \<open>-ves\<close> to \<open>-f\<close>; \<open>-ses\<close>, \<open>-xes\<close>, \<open>-ches\<close>, \<open>-shes\<close>
  lose two characters; a trailing \<open>-s\<close> is dropped; otherwise unchanged), where a word
  of at most one character is left unchanged, then capitalizes each word (first
  character upper case, the rest lower case) and concatenates them. The table
  \<open>order_items\<close> yields \<open>OrderItem\<close>.
\<close>

theorem toModelName_guarded:
  "toModelName tableName = modelNameGuarded tableName
   \<and> toModelName ''order_items'' = ''OrderItem''"
proof
  let ?ws = "map toSingular (split (CHR ''_'') tableName)"
  have ne: "?ws \<noteq> []" by (simp add: split_nonempty)
  have free: "\<forall>w \<in> set ?ws. CHR ''_'' \<notin> set w"
    using split_words_free toSingular_free by auto
  have "split (CHR ''_'') (join ''_'' ?ws) = ?ws"
    using split_join[OF ne free] by simp
  then have "toModelName tableName = concat (map capitalize ?ws)"
    by (simp add: toModelName_def toPascalCase_concat)
  then show "toModelName tableName = modelNameGuarded tableName"
    by (simp add: modelNameGuarded_def toSingular_cascadeGuarded comp_def)
next
  show "toModelName ''order_items'' = ''OrderItem''" by code_simp
qed

text \<open>
  The claim as stated, without the guard, fails on the one-letter table name \<open>s\<close>: the
  cascade drops the trailing \<open>s\<close> and leaves nothing, while \<^verbatim>\<open>toModelName\<close> returns
  \<open>S\<close>.
\<close>

theorem toModelName_counterexample:
  "toModelName ''s'' = ''S'' \<and> modelNameClaimed ''s'' = []
   \<and> toModelName ''s'' \<noteq> modelNameClaimed ''s''"
  by code_simp

section \<open>SQL renderer: primary keys\<close>

lemma columnDefs_single:
  assumes "length (filter n_primaryKey (map snd (t_columns table))) \<le> 1"
  shows "columnDefsOf table =
         map (\<lambda>c. ''  '' @ generateColumnDefinition c
                     @ (if n_primaryKey c then '' PRIMARY KEY'' else []))
             (map snd (t_columns table))"
  using assms by (simp add: columnDefsOf_def columnClause_def Let_def)

lemma columnDefs_composite:
  assumes "length (filter n_primaryKey (map snd (t_columns table))) > 1"
  shows "columnDefsOf table =
         map (\<lambda>c. ''  '' @ generateColumnDefinition c) (map snd (t_columns table))
         @ [''  PRIMARY KEY (''
              @ join '', '' (map n_name (filter n_primaryKey (map snd (t_columns table))))
              @ '')'']"
  using assms by (simp add: columnDefsOf_def columnClause_def Let_def)

text \<open>
  Claim C4. The statement \<^verbatim>\<open>generateTableSQL\<close> renders is the header, the column
  clauses and the foreign-key clauses joined by a comma and a newline, and the closing
  line. If exactly one column of the table is a primary key, the clause of a column is
  its definition followed by the inline marker \<open>PRIMARY KEY\<close> exactly when the column is
  the primary key. If more than one column is a primary key, every column clause is the
  bare definition, without the marker, and they are followed by one table-level clause
  \<open>PRIMARY KEY (col, col, ...)\<close> that lists all primary-key columns in column order.
  (The marker is the suffix the renderer appends; the text of a definition itself comes
  from the column's name, type and default.)
\<close>

theorem generateTableSQL_primary_key:
  fixes table :: NormalizedTable
  defines "columns \<equiv> map snd (t_columns table)"
  defines "pkColumns \<equiv> filter n_primaryKey columns"
  shows "generateTableSQL tableName table =
           ''CREATE TABLE '' @ t_name table @ '' ('' @ nl
           @ join ('','' @ nl) (columnDefsOf table @ fkConstraintsOf table) @ nl @ '');''
         \<and> (length pkColumns = 1 \<longrightarrow>
              columnDefsOf table =
                map (\<lambda>c. ''  '' @ generateColumnDefinition c
                            @ (if n_primaryKey c then '' PRIMARY KEY'' else [])) columns)
         \<and> (length pkColumns > 1 \<longrightarrow>
              columnDefsOf table =
                map (\<lambda>c. ''  '' @ generateColumnDefinition c) columns
                @ [''  PRIMARY KEY ('' @ join '', '' (map n_name pkColumns) @ '')''])"
  unfolding columns_def pkColumns_def
  by (simp add: generateTableSQL_def columnDefs_single columnDefs_composite)

theorem generateTableSQL_primary_key_witness:
  "columnDefsOf singleTable =
     [''  id INT NOT NULL PRIMARY KEY'', ''  email VARCHAR UNIQUE NOT NULL'']
   \<and> columnDefsOf compositeTable =
       [''  user_id INT NOT NULL'', ''  group_id INT NOT NULL'', ''  role VARCHAR'',
        ''  PRIMARY KEY (user_id, group_id)'']"
proof -
  have s: "length (filter n_primaryKey (map snd (t_columns singleTable))) = 1"
    by (simp add: singleTable_def mkColumn_def)
  have c: "length (filter n_primaryKey (map snd (t_columns compositeTable))) > 1"
    by (simp add: compositeTable_def mkColumn_def)
  have "columnDefsOf singleTable =
          map (\<lambda>c. ''  '' @ generateColumnDefinition c
                      @ (if n_primaryKey c then '' PRIMARY KEY'' else []))
              (map snd (t_columns singleTable))"
    using generateTableSQL_primary_key[of "''users''" singleTable] s by blast
  moreover have "columnDefsOf compositeTable =
          map (\<lambda>c. ''  '' @ generateColumnDefinition c) (map snd (t_columns compositeTable))
          @ [''  PRIMARY KEY ('' @ join '', ''
               (map n_name (filter n_primaryKey (map snd (t_columns compositeTable)))) @ '')'']"
    using generateTableSQL_primary_key[of "''memberships''" compositeTable] c by blast
  ultimately show ?thesis
    by (simp add: singleTable_def compositeTable_def mkColumn_def generateColumnDefinition_def
        isAutoincrement_def mapTypeToPostgres_def toLowerCase_def lowerChar_def)
qed

section \<open>ORM renderer: foreign-key fields\<close>




section \<open>SQL renderer: scenario A\<close>

lemma users_sql: "generateTableSQL ''users'' (usersTable n1 n2) = usersStatement n1 n2"
  by (cases n1; cases n2;
      simp add: usersTable_def mkColumn_def usersStatement_def notNull_def; code_simp)

lemma posts_sql: "generateTableSQL ''posts'' (postsTable n3 n4 n5) = postsStatement n3 n4 n5"
  by (cases n3; cases n4; cases n5;
      simp add: postsTable_def mkColumn_def postsStatement_def notNull_def; code_simp)

lemma scenario_guard: "validateSchemaForGeneration (scenarioA u n1 n2 n3 n4 n5) = Inr ()"
  by (cases u)
    (simp_all add: validateSchemaForGeneration_def validateForeignKeysForGeneration_def
      guardErrors_def guardColumnErrors_def pkColumnsOf_def scenarioA_def usersTable_def
      postsTable_def mkColumn_def setAdd_def)

lemma scenario_order: "orderTables (scenarioA u n1 n2 n3 n4 n5) = Some [''users'', ''posts'']"
  by (cases u)
    (simp_all add: orderTables_def orderTablesFuel_def dependenciesOf_def scenarioA_def
      usersTable_def postsTable_def mkColumn_def setAdd_def setDelete_def)

text \<open>
  Claim C8. For the schema of scenario A, whichever table comes first in the schema
  and whichever columns are nullable, \<^verbatim>\<open>generatePostgresSQL\<close> succeeds, and its output
  is the statement for \<open>users\<close>, a blank line, and the statement for \<open>posts\<close>; the
  statement for \<open>posts\<close> contains the clause
  \<open>FOREIGN KEY (user_id) REFERENCES users(id)\<close>.
\<close>

theorem scenarioA_sql:
  "generatePostgresSQL (scenarioA usersFirst n1 n2 n3 n4 n5)
     = Some (Inr (usersStatement n1 n2 @ nl @ nl @ postsStatement n3 n4 n5))
   \<and> sublist ''FOREIGN KEY (user_id) REFERENCES users(id)'' (postsStatement n3 n4 n5)"
proof
  have "map_of (tables (scenarioA usersFirst n1 n2 n3 n4 n5)) ''users'' = Some (usersTable n1 n2)"
       "map_of (tables (scenarioA usersFirst n1 n2 n3 n4 n5)) ''posts'' = Some (postsTable n3 n4 n5)"
    by (simp_all add: scenarioA_def)
  then show "generatePostgresSQL (scenarioA usersFirst n1 n2 n3 n4 n5)
     = Some (Inr (usersStatement n1 n2 @ nl @ nl @ postsStatement n3 n4 n5))"
    by (simp add: generatePostgresSQL_def scenario_guard scenario_order users_sql posts_sql)
next
  have "postsStatement n3 n4 n5 = (''CREATE TABLE posts ('' @ nl
     @ ''  id SERIAL'' @ notNull n3 @ '' PRIMARY KEY,'' @ nl
     @ ''  user_id INT'' @ notNull n4 @ '','' @ nl
     @ ''  title VARCHAR'' @ notNull n5 @ '','' @ nl @ ''  '')
     @ ''FOREIGN KEY (user_id) REFERENCES users(id)'' @ (nl @ '');'')"
    by (simp add: postsStatement_def)
  then show "sublist ''FOREIGN KEY (user_id) REFERENCES users(id)'' (postsStatement n3 n4 n5)"
    unfolding sublist_def by blast
qed

section \<open>SQL renderer: table order\<close>

lemma set_setAdd [simp]: "set (setAdd x xs) = insert x (set xs)"
  by (auto simp: setAdd_def)

lemma set_setDelete [simp]: "set (setDelete x xs) = set xs - {x}"
  by (simp add: setDelete_def)

lemma visit_terminates:
  "t \<in> fst ` set tbls \<Longrightarrow> card (fst ` set tbls - set (visiting st)) < fuel \<Longrightarrow>
     \<exists>st'. visit fuel tbls dm t st = Some st' \<and> set (visiting st') = set (visiting st)"
  "card (fst ` set tbls - set (visiting st)) < fuel \<Longrightarrow>
     \<exists>st'. visitDeps fuel tbls dm ds st = Some st' \<and> set (visiting st') = set (visiting st)"
proof (induction fuel tbls dm t st and fuel tbls dm ds st rule: visit_visitDeps.induct)
  case (1 tbls dm t st)
  then show ?case by simp
next
  case (2 fuel tbls dm t st)
  show ?case
  proof (cases "t \<in> set (visiting st) \<or> t \<in> set (visited st)")
    case True
    then show ?thesis by auto
  next
    case False
    define st1 where "st1 = st\<lparr>visiting := setAdd t (visiting st)\<rparr>"
    define deps where "deps = (case map_of dm t of Some d \<Rightarrow> d | None \<Rightarrow> [])"
    have fin: "finite (fst ` set tbls - set (visiting st))" by simp
    have mem: "t \<in> fst ` set tbls - set (visiting st)" using False "2.prems"(1) by simp
    have "fst ` set tbls - set (visiting st1) = (fst ` set tbls - set (visiting st)) - {t}"
      by (auto simp: st1_def)
    then have "card (fst ` set tbls - set (visiting st1)) = card (fst ` set tbls - set (visiting st)) - 1"
      using mem fin by (simp add: card_Diff_singleton)
    moreover have "card (fst ` set tbls - set (visiting st)) > 0"
      using mem fin by (metis card_gt_0_iff empty_iff)
    ultimately have "card (fst ` set tbls - set (visiting st1)) < fuel"
      using "2.prems"(2) by linarith
    with "2.IH"[of st1 deps] False obtain st2 where
      st2: "visitDeps fuel tbls dm deps st1 = Some st2" "set (visiting st2) = set (visiting st1)"
      by (auto simp: st1_def deps_def)
    have "set (visiting st2) - {t} = set (visiting st)"
      using st2(2) False by (auto simp: st1_def)
    with st2 False show ?thesis
      by (simp add: st1_def[symmetric] deps_def[symmetric] Let_def)
  qed
next
  case (3 fuel tbls dm st)
  then show ?case by simp
next
  case (4 fuel tbls dm dep deps st)
  show ?case
  proof (cases "map_of tbls dep \<noteq> None")
    case True
    then have "dep \<in> fst ` set tbls" by (simp add: map_of_eq_None_iff)
    with "4.IH"(1)[OF True] "4.prems" obtain st' where
      st': "visit fuel tbls dm dep st = Some st'" "set (visiting st') = set (visiting st)"
      by blast
    with "4.IH"(2)[OF True st'(1)] "4.prems" obtain st'' where
      "visitDeps fuel tbls dm deps st' = Some st''" "set (visiting st'') = set (visiting st')"
      by auto
    with st' True show ?thesis by simp
  next
    case False
    with "4.IH"(3) "4.prems" show ?thesis by simp
  qed
qed

lemma visit_inv:
  "visit fuel tbls dm t st = Some st' \<Longrightarrow> t \<in> fst ` set tbls \<Longrightarrow> okState tbls st \<Longrightarrow>
     okState tbls st' \<and> set (visited st) \<subseteq> set (visited st')
     \<and> set (visiting st') = set (visiting st)
     \<and> (\<forall>x \<in> set (visiting st). x \<in> set (visited st') \<longrightarrow> x \<in> set (visited st))
     \<and> (\<exists>new. ordered st' = ordered st @ new)
     \<and> (t \<in> set (visiting st) \<or> t \<in> set (visited st'))"
  "visitDeps fuel tbls dm ds st = Some st' \<Longrightarrow> okState tbls st \<Longrightarrow>
     okState tbls st' \<and> set (visited st) \<subseteq> set (visited st')
     \<and> set (visiting st') = set (visiting st)
     \<and> (\<forall>x \<in> set (visiting st). x \<in> set (visited st') \<longrightarrow> x \<in> set (visited st))
     \<and> (\<exists>new. ordered st' = ordered st @ new)"
proof (induction fuel tbls dm t st and fuel tbls dm ds st arbitrary: st' and st'
       rule: visit_visitDeps.induct)
  case (1 tbls dm t st)
  then show ?case by simp
next
  case (2 fuel tbls dm t st)
  show ?case
  proof (cases "t \<in> set (visiting st) \<or> t \<in> set (visited st)")
    case True
    with "2.prems"(1) have "st' = st" by (simp split: if_splits)
    with True "2.prems"(3) show ?thesis by auto
  next
    case False
    define st1 where "st1 = st\<lparr>visiting := setAdd t (visiting st)\<rparr>"
    define deps where "deps = (case map_of dm t of Some d \<Rightarrow> d | None \<Rightarrow> [])"
    from "2.prems"(1) False obtain st2 where
      st2: "visitDeps fuel tbls dm deps st1 = Some st2"
      and st': "st' = st2\<lparr>visiting := setDelete t (visiting st2),
                          visited := setAdd t (visited st2),
                          ordered := ordered st2 @ [t]\<rparr>"
      by (auto simp: st1_def deps_def Let_def split: option.splits)
    have ok1: "okState tbls st1" using "2.prems"(3) by (simp add: okState_def st1_def)
    from "2.IH"[of st1 deps st2] False st2 ok1 have
      ih: "okState tbls st2" "set (visited st1) \<subseteq> set (visited st2)"
          "set (visiting st2) = set (visiting st1)"
          "\<forall>x \<in> set (visiting st1). x \<in> set (visited st2) \<longrightarrow> x \<in> set (visited st1)"
          "\<exists>new. ordered st2 = ordered st1 @ new"
      by (auto simp: st1_def deps_def)
    have v1: "set (visiting st1) = insert t (set (visiting st))" "visited st1 = visited st"
      "ordered st1 = ordered st"
      by (simp_all add: st1_def)
    have tnew: "t \<notin> set (visited st2)" using ih(4) v1 False by auto
    then have tord: "t \<notin> set (ordered st2)" using ih(1) by (simp add: okState_def)
    have "okState tbls st'"
      using ih(1) tord "2.prems"(2) by (auto simp: okState_def st')
    moreover have "set (visited st) \<subseteq> set (visited st')"
      using ih(2) v1 by (auto simp: st')
    moreover have "set (visiting st') = set (visiting st)"
      using ih(3) v1 False by (auto simp: st')
    moreover have "\<forall>x \<in> set (visiting st). x \<in> set (visited st') \<longrightarrow> x \<in> set (visited st)"
      using ih(4) v1 False by (auto simp: st')
    moreover have "\<exists>new. ordered st' = ordered st @ new"
      using ih(5) v1 by (auto simp: st')
    moreover have "t \<in> set (visited st')" by (simp add: st')
    ultimately show ?thesis by blast
  qed
next
  case (3 fuel tbls dm st)
  then show ?case by simp
next
  case (4 fuel tbls dm dep deps st)
  show ?case
  proof (cases "map_of tbls dep \<noteq> None")
    case True
    then have dk: "dep \<in> fst ` set tbls" by (simp add: map_of_eq_None_iff)
    from "4.prems"(1) True obtain st1 where
      s1: "visit fuel tbls dm dep st = Some st1" and s2: "visitDeps fuel tbls dm deps st1 = Some st'"
      by (auto split: option.splits)
    note a = "4.IH"(1)[OF True s1 dk "4.prems"(2)]
    then have ok1: "okState tbls st1" by blast
    note b = "4.IH"(2)[OF True s1 s2 ok1]
    from a b show ?thesis by (auto; blast)
  next
    case False
    with "4.IH"(3)[of st'] "4.prems" show ?thesis by simp
  qed
qed

lemma before_append: "before b a xs \<Longrightarrow> before b a (xs @ ys)"
  unfolding before_def by (metis append.assoc append_Cons)

lemma before_last: "b \<in> set xs \<Longrightarrow> before b a (xs @ [a])"
  unfolding before_def by blast

lemma closedState_append:
  "closedState R st \<Longrightarrow> visited st' = visited st \<Longrightarrow> ordered st' = ordered st @ new \<Longrightarrow>
   closedState R st'"
  unfolding closedState_def by (simp add: before_append)

lemma visit_topo:
  "visit fuel tbls dm t st = Some st' \<Longrightarrow> t \<in> fst ` set tbls \<Longrightarrow> okState tbls st \<Longrightarrow>
     acyclic (depRel tbls dm) \<Longrightarrow> \<forall>v \<in> set (visiting st). (v, t) \<in> (depRel tbls dm)\<^sup>+ \<Longrightarrow>
     closedState (depRel tbls dm) st \<Longrightarrow>
     closedState (depRel tbls dm) st' \<and> t \<in> set (visited st')"
  "visitDeps fuel tbls dm ds st = Some st' \<Longrightarrow> okState tbls st \<Longrightarrow>
     acyclic (depRel tbls dm) \<Longrightarrow>
     \<forall>v \<in> set (visiting st). \<forall>d \<in> set ds. d \<in> fst ` set tbls \<longrightarrow> (v, d) \<in> (depRel tbls dm)\<^sup>+ \<Longrightarrow>
     closedState (depRel tbls dm) st \<Longrightarrow>
     closedState (depRel tbls dm) st' \<and> (\<forall>d \<in> set ds. d \<in> fst ` set tbls \<longrightarrow> d \<in> set (visited st'))"
proof (induction fuel tbls dm t st and fuel tbls dm ds st arbitrary: st' and st'
       rule: visit_visitDeps.induct)
  case (1 tbls dm t st)
  then show ?case by simp
next
  case (2 fuel tbls dm t st)
  let ?R = "depRel tbls dm"
  have tv: "t \<notin> set (visiting st)"
  proof
    assume "t \<in> set (visiting st)"
    with "2.prems"(5) have "(t, t) \<in> ?R\<^sup>+" by blast
    with "2.prems"(4) show False by (simp add: acyclic_def)
  qed
  show ?case
  proof (cases "t \<in> set (visited st)")
    case True
    with "2.prems"(1) tv have "st' = st" by simp
    with True "2.prems"(6) show ?thesis by simp
  next
    case False
    define st1 where "st1 = st\<lparr>visiting := setAdd t (visiting st)\<rparr>"
    define deps where "deps = (case map_of dm t of Some d \<Rightarrow> d | None \<Rightarrow> [])"
    from "2.prems"(1) False tv obtain st2 where
      st2: "visitDeps fuel tbls dm deps st1 = Some st2"
      and st': "st' = st2\<lparr>visiting := setDelete t (visiting st2),
                          visited := setAdd t (visited st2),
                          ordered := ordered st2 @ [t]\<rparr>"
      by (auto simp: st1_def deps_def Let_def split: option.splits)
    have ok1: "okState tbls st1" using "2.prems"(3) by (simp add: okState_def st1_def)
    have cl1: "closedState ?R st1" using "2.prems"(6) by (simp add: closedState_def st1_def)
    have step: "(t, d) \<in> ?R" if "d \<in> set deps" "d \<in> fst ` set tbls" for d
      using that by (simp add: depRel_def deps_def)
    have reach: "\<forall>v \<in> set (visiting st1). \<forall>d \<in> set deps. d \<in> fst ` set tbls \<longrightarrow> (v, d) \<in> ?R\<^sup>+"
    proof (intro ballI impI)
      fix v d assume v: "v \<in> set (visiting st1)" and d: "d \<in> set deps" "d \<in> fst ` set tbls"
      from v have "v = t \<or> v \<in> set (visiting st)" by (auto simp: st1_def)
      then show "(v, d) \<in> ?R\<^sup>+"
      proof
        assume "v = t" with step[OF d] show ?thesis by blast
      next
        assume "v \<in> set (visiting st)"
        with "2.prems"(5) have "(v, t) \<in> ?R\<^sup>+" by blast
        with step[OF d] show ?thesis by (meson trancl_into_trancl)
      qed
    qed
    from "2.IH"[of st1 deps st2] tv False st2 ok1 "2.prems"(4) reach cl1 have
      ih: "closedState ?R st2" "\<forall>d \<in> set deps. d \<in> fst ` set tbls \<longrightarrow> d \<in> set (visited st2)"
      by (auto simp: st1_def deps_def)
    from visit_inv(2)[OF st2 ok1] have ok2: "okState tbls st2" by blast
    have "closedState ?R st'"
      unfolding closedState_def
    proof (intro ballI allI impI)
      fix a b assume a: "a \<in> set (visited st')" and ab: "(a, b) \<in> ?R"
      from a have "a = t \<or> a \<in> set (visited st2)" by (auto simp: st')
      then show "before b a (ordered st')"
      proof
        assume "a = t"
        with ab have "b \<in> set deps" "b \<in> fst ` set tbls" by (simp_all add: depRel_def deps_def)
        with ih(2) have "b \<in> set (visited st2)" by blast
        with ok2 have "b \<in> set (ordered st2)" by (simp add: okState_def)
        with \<open>a = t\<close> show ?thesis by (simp add: st' before_last)
      next
        assume "a \<in> set (visited st2)"
        with ih(1) ab have "before b a (ordered st2)" by (simp add: closedState_def)
        then show ?thesis by (simp add: st' before_append)
      qed
    qed
    then show ?thesis by (simp add: st')
  qed
next
  case (3 fuel tbls dm st)
  then show ?case by simp
next
  case (4 fuel tbls dm dep deps st)
  let ?R = "depRel tbls dm"
  show ?case
  proof (cases "map_of tbls dep \<noteq> None")
    case True
    then have dk: "dep \<in> fst ` set tbls" by (simp add: map_of_eq_None_iff)
    from "4.prems"(1) True obtain st1 where
      s1: "visit fuel tbls dm dep st = Some st1" and s2: "visitDeps fuel tbls dm deps st1 = Some st'"
      by (auto split: option.splits)
    have r1: "\<forall>v \<in> set (visiting st). (v, dep) \<in> ?R\<^sup>+" using "4.prems"(4) dk by simp
    note a = "4.IH"(1)[OF True s1 dk "4.prems"(2) "4.prems"(3) r1 "4.prems"(5)]
    note i1 = visit_inv(1)[OF s1 dk "4.prems"(2)]
    then have ok1: "okState tbls st1" and vs: "set (visiting st1) = set (visiting st)" by blast+
    have r2: "\<forall>v \<in> set (visiting st1). \<forall>d \<in> set deps. d \<in> fst ` set tbls \<longrightarrow> (v, d) \<in> ?R\<^sup>+"
      using "4.prems"(4) vs by simp
    from a have cl1: "closedState ?R st1" by blast
    note b = "4.IH"(2)[OF True s1 s2 ok1 "4.prems"(3) r2 cl1]
    from visit_inv(2)[OF s2 ok1] have mono: "set (visited st1) \<subseteq> set (visited st')" by blast
    from a b mono show ?thesis by auto
  next
    case False
    then have "dep \<notin> fst ` set tbls" by (simp add: map_of_eq_None_iff)
    with "4.IH"(3)[OF _ _ "4.prems"(2) "4.prems"(3) _ "4.prems"(5), of st'] False "4.prems"(1,4)
    show ?thesis by auto
  qed
qed

lemma map_of_objSet: "map_of (objSet k v m) k' = (if k' = k then Some v else map_of m k')"
  by (induction m) auto

lemma fst_set_objSet: "fst ` set (objSet k v m) = insert k (fst ` set m)"
  by (induction m) auto

lemma map_of_fold_objSet:
  "distinct (map fst xs) \<Longrightarrow>
   map_of (fold (\<lambda>e m. objSet (fst e) (f e) m) xs m0) k =
     (case map_of xs k of Some v \<Rightarrow> Some (f (k, v)) | None \<Rightarrow> map_of m0 k)"
proof (induction xs arbitrary: m0)
  case Nil
  then show ?case by simp
next
  case (Cons x xs)
  obtain a b where x: "x = (a, b)" by (cases x)
  from Cons.prems have nin: "a \<notin> fst ` set xs" and d: "distinct (map fst xs)" by (auto simp: x)
  from nin have none: "map_of xs a = None" by (simp add: map_of_eq_None_iff)
  show ?case using Cons.IH[OF d, of "objSet (fst x) (f x) m0"] none
    by (auto simp: x map_of_objSet split: option.splits)
qed

lemma visit_fuel_mono:
  "visit fuel tbls dm t st = Some st' \<Longrightarrow> fuel \<le> fuel' \<Longrightarrow> visit fuel' tbls dm t st = Some st'"
  "visitDeps fuel tbls dm ds st = Some st' \<Longrightarrow> fuel \<le> fuel' \<Longrightarrow>
     visitDeps fuel' tbls dm ds st = Some st'"
proof (induction fuel tbls dm t st and fuel tbls dm ds st arbitrary: st' fuel' and st' fuel'
       rule: visit_visitDeps.induct)
  case (1 tbls dm t st)
  then show ?case by simp
next
  case (2 fuel tbls dm t st)
  from "2.prems"(2) obtain f where f: "fuel' = Suc f" "fuel \<le> f" by (cases fuel') auto
  show ?case
  proof (cases "t \<in> set (visiting st) \<or> t \<in> set (visited st)")
    case True
    with "2.prems"(1) have "st' = st" by (simp split: if_splits)
    with True show ?thesis by (auto simp: f)
  next
    case False
    define st1 where "st1 = st\<lparr>visiting := setAdd t (visiting st)\<rparr>"
    define deps where "deps = (case map_of dm t of Some d \<Rightarrow> d | None \<Rightarrow> [])"
    from "2.prems"(1) False obtain st2 where
      st2: "visitDeps fuel tbls dm deps st1 = Some st2"
      and st': "st' = st2\<lparr>visiting := setDelete t (visiting st2),
                          visited := setAdd t (visited st2),
                          ordered := ordered st2 @ [t]\<rparr>"
      by (auto simp: st1_def deps_def Let_def split: option.splits)
    from "2.IH"[of st1 deps st2 f] False st2 f(2)
    have "visitDeps f tbls dm deps st1 = Some st2" by (auto simp: st1_def deps_def)
    with False st' show ?thesis
      by (simp add: f st1_def[symmetric] deps_def[symmetric] Let_def)
  qed
next
  case (3 fuel tbls dm st)
  then show ?case by simp
next
  case (4 fuel tbls dm dep deps st)
  show ?case
  proof (cases "map_of tbls dep \<noteq> None")
    case True
    from "4.prems"(1) True obtain st1 where
      s1: "visit fuel tbls dm dep st = Some st1" and s2: "visitDeps fuel tbls dm deps st1 = Some st'"
      by (auto split: option.splits)
    from "4.IH"(1)[OF True s1 "4.prems"(2)] "4.IH"(2)[OF True s1 s2 "4.prems"(2)] True
    show ?thesis by simp
  next
    case False
    with "4.IH"(3)[of st' fuel'] "4.prems" show ?thesis by simp
  qed
qed

lemma visitAll_fuel_mono:
  "visitAll fuel tbls dm names st = Some st' \<Longrightarrow> fuel \<le> fuel' \<Longrightarrow>
   visitAll fuel' tbls dm names st = Some st'"
proof (induction names arbitrary: st)
  case Nil
  then show ?case by simp
next
  case (Cons t names)
  from Cons.prems(1) obtain st1 where
    s1: "visit fuel tbls dm t st = Some st1" and s2: "visitAll fuel tbls dm names st1 = Some st'"
    by (auto split: option.splits)
  from visit_fuel_mono(1)[OF s1 Cons.prems(2)] Cons.IH[OF s2 Cons.prems(2)]
  show ?case by simp
qed

lemma visitAll_correct:
  assumes "set names \<subseteq> fst ` set tbls" and "set (visiting st) = {}"
    and "card (fst ` set tbls) < fuel" and "okState tbls st"
  shows "\<exists>st'. visitAll fuel tbls dm names st = Some st' \<and> okState tbls st'
           \<and> set (visiting st') = {} \<and> set (visited st) \<union> set names \<subseteq> set (visited st')
           \<and> (acyclic (depRel tbls dm) \<and> closedState (depRel tbls dm) st
                \<longrightarrow> closedState (depRel tbls dm) st')"
  using assms
proof (induction names arbitrary: st)
  case Nil
  then show ?case by simp
next
  case (Cons t names)
  from Cons.prems have tk: "t \<in> fst ` set tbls" and nk: "set names \<subseteq> fst ` set tbls" by auto
  from Cons.prems(2,3) have "card (fst ` set tbls - set (visiting st)) < fuel" by simp
  from visit_terminates(1)[OF tk this, of dm] obtain st1 where
    s1: "visit fuel tbls dm t st = Some st1" by blast
  note i1 = visit_inv(1)[OF s1 tk Cons.prems(4)]
  then have ok1: "okState tbls st1" and v1: "set (visiting st1) = {}"
    and m1: "set (visited st) \<subseteq> set (visited st1)" and t1: "t \<in> set (visited st1)"
    using Cons.prems(2) by auto
  from Cons.IH[OF nk v1 Cons.prems(3) ok1] obtain st' where
    s2: "visitAll fuel tbls dm names st1 = Some st'" and ok': "okState tbls st'"
    and v': "set (visiting st') = {}" and m': "set (visited st1) \<union> set names \<subseteq> set (visited st')"
    and c': "acyclic (depRel tbls dm) \<and> closedState (depRel tbls dm) st1
                \<longrightarrow> closedState (depRel tbls dm) st'"
    by blast
  have "closedState (depRel tbls dm) st'"
    if "acyclic (depRel tbls dm)" "closedState (depRel tbls dm) st"
  proof -
    have "\<forall>v \<in> set (visiting st). (v, t) \<in> (depRel tbls dm)\<^sup>+" using Cons.prems(2) by simp
    from visit_topo(1)[OF s1 tk Cons.prems(4) that(1) this that(2)] c' that(1)
    show ?thesis by blast
  qed
  with s1 s2 ok' v' m' m1 t1 show ?case by auto
qed

lemma before_precedes: "before b a xs \<Longrightarrow> precedes b a xs"
proof -
  assume "before b a xs"
  then obtain ys zs where xs: "xs = ys @ a # zs" and b: "b \<in> set ys"
    unfolding before_def by blast
  from b obtain i where i: "i < length ys" "ys ! i = b" by (auto simp: in_set_conv_nth)
  have "xs ! i = b" using i by (simp add: xs nth_append)
  moreover have "xs ! length ys = a" by (simp add: xs)
  moreover have "length ys < length xs" by (simp add: xs)
  ultimately show ?thesis unfolding precedes_def using i(1) by blast
qed

lemma set_depsFold:
  "set (fold (\<lambda>column deps. case n_foreignKey column of
                              None \<Rightarrow> deps
                            | Some fk \<Rightarrow> setAdd (fk_table fk) deps) cs acc)
   = set acc \<union> {fk_table fk | fk column. column \<in> set cs \<and> n_foreignKey column = Some fk}"
  by (induction cs arbitrary: acc) (auto split: option.splits)

lemma depRel_fkDependency:
  assumes "distinct (map fst (tables schema))"
  shows "depRel (tables schema) (dependenciesOf (tables schema)) = fkDependency schema"
proof -
  have m: "map_of (dependenciesOf (tables schema)) a =
        (case map_of (tables schema) a of
           Some table \<Rightarrow>
             Some (fold (\<lambda>column deps. case n_foreignKey column of
                              None \<Rightarrow> deps
                            | Some fk \<Rightarrow> setAdd (fk_table fk) deps)
                        (map snd (t_columns table)) [])
         | None \<Rightarrow> None)" for a
    unfolding dependenciesOf_def
    using map_of_fold_objSet[OF assms,
        where f = "\<lambda>e. fold (\<lambda>column deps. case n_foreignKey column of
                              None \<Rightarrow> deps
                            | Some fk \<Rightarrow> setAdd (fk_table fk) deps)
                        (map snd (t_columns (snd e))) []" and ?m0.0 = "[]" and k = a]
    by (simp split: option.splits)
  have e: "(a, table) \<in> set (tables schema) \<longleftrightarrow> map_of (tables schema) a = Some table" for a table
    using assms by simp
  have "(a, b) \<in> depRel (tables schema) (dependenciesOf (tables schema))
        \<longleftrightarrow> (a, b) \<in> fkDependency schema" for a b
  proof (cases "map_of (tables schema) a")
    case None
    then have "\<And>table. (a, table) \<notin> set (tables schema)" using e by simp
    with None show ?thesis by (simp add: depRel_def fkDependency_def m)
  next
    case (Some table)
    have "(a, b) \<in> fkDependency schema \<longleftrightarrow>
          (\<exists>column fk. column \<in> snd ` set (t_columns table) \<and> n_foreignKey column = Some fk
              \<and> fk_table fk = b) \<and> b \<in> fst ` set (tables schema)"
      unfolding fkDependency_def using Some e by auto
    also have "\<dots> \<longleftrightarrow> (a, b) \<in> depRel (tables schema) (dependenciesOf (tables schema))"
      unfolding depRel_def using Some by (auto simp: m set_depsFold; force)
    finally show ?thesis by simp
  qed
  then show ?thesis by auto
qed

lemma orderTablesFuel_result:
  assumes "length (tables schema) < fuel"
  shows "\<exists>order. orderTablesFuel fuel schema = Some order \<and> distinct order
           \<and> set order = fst ` set (tables schema)
           \<and> (distinct (map fst (tables schema)) \<and> acyclic (fkDependency schema)
                \<longrightarrow> (\<forall>a b. (a, b) \<in> fkDependency schema \<longrightarrow> precedes b a order))"
proof -
  let ?tbls = "tables schema"
  let ?dm = "dependenciesOf ?tbls"
  let ?st0 = "\<lparr>ordered = [], visited = [], visiting = []\<rparr>"
  have "card (fst ` set ?tbls) \<le> length ?tbls"
    by (metis card_image_le card_length le_trans List.finite_set)
  with assms have c: "card (fst ` set ?tbls) < fuel" by simp
  have ok0: "okState ?tbls ?st0" by (simp add: okState_def)
  from visitAll_correct[of "map fst ?tbls" ?tbls ?st0 fuel ?dm] c ok0 obtain st' where
    s: "visitAll fuel ?tbls ?dm (map fst ?tbls) ?st0 = Some st'" and ok: "okState ?tbls st'"
    and all: "fst ` set ?tbls \<subseteq> set (visited st')"
    and cl: "acyclic (depRel ?tbls ?dm) \<and> closedState (depRel ?tbls ?dm) ?st0
               \<longrightarrow> closedState (depRel ?tbls ?dm) st'"
    by auto
  have r: "orderTablesFuel fuel schema = Some (ordered st')"
    by (simp add: orderTablesFuel_def s)
  have d: "distinct (ordered st')" and e: "set (ordered st') = fst ` set ?tbls"
    using ok all by (auto simp: okState_def)
  have "precedes b a (ordered st')"
    if w: "distinct (map fst ?tbls)" and ac: "acyclic (fkDependency schema)"
      and ab: "(a, b) \<in> fkDependency schema" for a b
  proof -
    have R: "depRel ?tbls ?dm = fkDependency schema" by (rule depRel_fkDependency[OF w])
    have "closedState (depRel ?tbls ?dm) ?st0" by (simp add: closedState_def)
    with cl ac R have c': "closedState (fkDependency schema) st'" by simp
    from ab have "a \<in> fst ` set ?tbls" unfolding fkDependency_def by force
    with all have "a \<in> set (visited st')" by blast
    with c' ab have "before b a (ordered st')" by (simp add: closedState_def)
    then show ?thesis by (rule before_precedes)
  qed
  with r d e show ?thesis by blast
qed


lemma orderTablesFuel_enough:
  assumes "length (tables schema) < fuel"
  shows "orderTablesFuel fuel schema = orderTables schema"
proof -
  obtain st' where s: "visitAll (Suc (length (tables schema))) (tables schema)
      (dependenciesOf (tables schema)) (map fst (tables schema))
      \<lparr>ordered = [], visited = [], visiting = []\<rparr> = Some st'"
    using orderTablesFuel_result[of schema "Suc (length (tables schema))"]
    by (auto simp: orderTablesFuel_def)
  from assms have "Suc (length (tables schema)) \<le> fuel" by simp
  from visitAll_fuel_mono[OF s this] s show ?thesis
    by (simp add: orderTables_def orderTablesFuel_def)
qed

text \<open>
  Claim C9. For every schema, cyclic or not, \<^verbatim>\<open>orderTables\<close> returns: with the fuel
  it starts with, and with any larger amount of fuel, the traversal ends with the same
  list. The list holds every table name of the schema exactly once (it has no
  repetition and its elements are the keys of the table dictionary). When the
  dependency relation is acyclic, every table that a foreign key references stands
  in the list before each table that references it.
\<close>

theorem orderTables_permutation:
  "\<exists>order. orderTables schema = Some order
     \<and> (\<forall>fuel. length (tables schema) < fuel \<longrightarrow> orderTablesFuel fuel schema = Some order)
     \<and> distinct order \<and> set order = fst ` set (tables schema)
     \<and> (wfSchema schema \<and> acyclic (fkDependency schema)
          \<longrightarrow> (\<forall>a b. (a, b) \<in> fkDependency schema \<longrightarrow> precedes b a order))"
proof -
  from orderTablesFuel_result[of schema "Suc (length (tables schema))"] obtain order where
    o: "orderTables schema = Some order" "distinct order" "set order = fst ` set (tables schema)"
    "distinct (map fst (tables schema)) \<and> acyclic (fkDependency schema)
                \<longrightarrow> (\<forall>a b. (a, b) \<in> fkDependency schema \<longrightarrow> precedes b a order)"
    by (auto simp: orderTables_def)
  have "\<forall>fuel. length (tables schema) < fuel \<longrightarrow> orderTablesFuel fuel schema = Some order"
    by (simp add: orderTablesFuel_enough o(1))
  with o show ?thesis by (auto simp: wfSchema_def)
qed

lemma fkDependency_chain: "fkDependency chainSchema = {(''c'', ''b''), (''b'', ''a'')}"
  unfolding fkDependency_def chainSchema_def mkColumn_def by auto

text \<open>On the chain \<open>c \<rightarrow> b \<rightarrow> a\<close>, listed against its dependencies, the order is
  \<open>a, b, c\<close>; on two tables that reference each other the traversal still ends.\<close>

theorem orderTables_permutation_witness:
  "wfSchema chainSchema \<and> acyclic (fkDependency chainSchema)
   \<and> (''c'', ''b'') \<in> fkDependency chainSchema
   \<and> orderTables chainSchema = Some [''a'', ''b'', ''c'']
   \<and> precedes ''b'' ''c'' [''a'', ''b'', ''c'']
   \<and> orderTables cyclicSchema = Some [''b'', ''a'']
   \<and> orderTablesFuel 7 cyclicSchema = Some [''b'', ''a'']"
proof -
  have wf: "wfSchema chainSchema" by (simp add: wfSchema_def chainSchema_def)
  have ac: "acyclic (fkDependency chainSchema)"
  proof (rule acyclicI_order[where f = "\<lambda>s. (of_char (hd s) :: nat)"])
    fix a b assume "(a, b) \<in> fkDependency chainSchema"
    then show "of_char (hd b) < (of_char (hd a) :: nat)" by (auto simp: fkDependency_chain)
  qed
  have cb: "(''c'', ''b'') \<in> fkDependency chainSchema" by (simp add: fkDependency_chain)
  have o: "orderTables chainSchema = Some [''a'', ''b'', ''c'']" by code_simp
  have oc: "orderTables cyclicSchema = Some [''b'', ''a'']" by code_simp
  from orderTables_permutation[of chainSchema] o wf ac cb
  have p: "precedes ''b'' ''c'' [''a'', ''b'', ''c'']" by auto
  from orderTables_permutation[of cyclicSchema] obtain order where
    c1: "orderTables cyclicSchema = Some order"
    and c2: "\<forall>fuel. length (tables cyclicSchema) < fuel
               \<longrightarrow> orderTablesFuel fuel cyclicSchema = Some order"
    by blast
  have "length (tables cyclicSchema) < 7" by (simp add: cyclicSchema_def)
  with c2 have "orderTablesFuel 7 cyclicSchema = Some order" by blast
  with c1 oc have "orderTablesFuel 7 cyclicSchema = Some [''b'', ''a'']" by simp
  with wf ac cb o p oc show ?thesis by blast
qed

section \<open>Generation guard and renderers\<close>












lemma expectedMessages_empty_iff:
  "expectedMessages tbls tableName centry = [] \<longleftrightarrow> \<not> columnViolatesGuard tbls (snd centry)"
  by (auto simp: expectedMessages_def columnViolatesGuard_def split: option.splits)






section \<open>Normalizer: foreign-key metadata\<close>


lemma map_of_fold_objSet_find:
  "distinct (map k xs) \<Longrightarrow>
   map_of (fold (\<lambda>x m. objSet (k x) (v x) m) xs m0) key =
     (case find (\<lambda>x. k x = key) xs of Some x \<Rightarrow> Some (v x) | None \<Rightarrow> map_of m0 key)"
proof (induction xs arbitrary: m0)
  case Nil
  then show ?case by simp
next
  case (Cons x xs)
  from Cons.prems have d: "distinct (map k xs)" by simp
  have nin: "\<forall>y \<in> set xs. k y \<noteq> k x"
  proof
    fix y assume "y \<in> set xs"
    then have "k y \<in> k ` set xs" by (rule imageI)
    with Cons.prems show "k y \<noteq> k x" by auto
  qed
  have "find (\<lambda>y. k y = k x) xs = None" using nin by (simp add: find_None_iff)
  with Cons.IH[OF d, of "objSet (k x) (v x) m0"] show ?case
    by (auto simp: map_of_objSet split: option.splits)
qed

text \<open>Without distinct keys, the last write to a key is the one a lookup finds.\<close>

lemma map_of_fold_objSet_last:
  "map_of (fold (\<lambda>x m. objSet (k x) (v x) m) xs m0) key =
     (case find (\<lambda>x. k x = key) (rev xs) of Some x \<Rightarrow> Some (v x) | None \<Rightarrow> map_of m0 key)"
proof (induction xs rule: rev_induct)
  case Nil
  then show ?case by simp
next
  case (snoc x xs)
  then show ?case by (simp add: map_of_objSet)
qed

lemma takeWhile_until:
  "c \<notin> set t \<Longrightarrow> takeWhile (\<lambda>x. x \<noteq> c) (t @ c # rest) = t"
  by (induction t) auto

lemma columnKey_inject:
  assumes "CHR '':'' \<notin> set t" "CHR '':'' \<notin> set t'"
  shows "columnKey t c = columnKey t' c' \<longleftrightarrow> t = t' \<and> c = c'"
proof
  assume e: "columnKey t c = columnKey t' c'"
  have "takeWhile (\<lambda>x. x \<noteq> CHR '':'') (columnKey t c) = t"
    using assms(1) by (simp add: columnKey_def takeWhile_until)
  moreover have "takeWhile (\<lambda>x. x \<noteq> CHR '':'') (columnKey t' c') = t'"
    using assms(2) by (simp add: columnKey_def takeWhile_until)
  ultimately have "t = t'" using e by simp
  with e show "t = t' \<and> c = c'" by (simp add: columnKey_def)
qed simp

lemma fst_fold_populateTable:
  "fst (fold populateTable tbls maps) = fold (\<lambda>t m. objSet (tbl_id t) (tbl_name t) m) tbls (fst maps)"
  by (induction tbls arbitrary: maps) (simp_all add: populateTable_def)

lemma snd_fold_populateTable:
  "snd (fold populateTable tbls maps) =
     fold (\<lambda>t m. fold (\<lambda>column m. objSet (columnKey (tbl_id t) (col_id column))
                                        (tbl_id t, col_name column) m) (tbl_columns t) m)
          tbls (snd maps)"
  by (induction tbls arbitrary: maps) (simp_all add: populateTable_def)

lemma tableNameMap_lookup:
  assumes "wfGraph tbls"
  shows "map_of (fst (lookupMaps tbls)) tableId = map_option tbl_name (findTable tbls tableId)"
proof -
  from assms have d: "distinct (map tbl_id tbls)" by (simp add: wfGraph_def)
  show ?thesis
    unfolding lookupMaps_def fst_fold_populateTable findTable_def
    using map_of_fold_objSet_find[OF d, of tbl_name "[]" tableId]
    by (simp split: option.splits)
qed

lemma columnFold_lookup:
  assumes "distinct (map col_id cols)" "CHR '':'' \<notin> set tid" "CHR '':'' \<notin> set tableId"
  shows "map_of (fold (\<lambda>column m. objSet (columnKey tid (col_id column)) (tid, col_name column) m)
                      cols m0) (columnKey tableId columnId)
         = (if tid = tableId
            then (case find (\<lambda>c. col_id c = columnId) cols of
                    Some c \<Rightarrow> Some (tid, col_name c)
                  | None \<Rightarrow> map_of m0 (columnKey tableId columnId))
            else map_of m0 (columnKey tableId columnId))"
proof -
  have d: "distinct (map (\<lambda>c. columnKey tid (col_id c)) cols)"
    using assms(1) by (simp add: distinct_map columnKey_def inj_on_def)
  have f: "find (\<lambda>c. columnKey tid (col_id c) = columnKey tableId columnId) cols
           = (if tid = tableId then find (\<lambda>c. col_id c = columnId) cols else None)"
    using columnKey_inject[OF assms(2,3)] by (auto simp: find_None_iff)
  show ?thesis
    using map_of_fold_objSet_find[OF d, of "\<lambda>c. (tid, col_name c)" m0 "columnKey tableId columnId"]
    by (simp add: f split: option.splits)
qed

lemma columnNameMap_fold_lookup:
  assumes "wfGraph tbls" "CHR '':'' \<notin> set tableId"
  shows "map_of (fold (\<lambda>t m. fold (\<lambda>column m. objSet (columnKey (tbl_id t) (col_id column))
                                        (tbl_id t, col_name column) m) (tbl_columns t) m)
                  tbls m0) (columnKey tableId columnId)
         = (case findTable tbls tableId of
              None \<Rightarrow> map_of m0 (columnKey tableId columnId)
            | Some t \<Rightarrow>
                (case findColumn t columnId of
                   Some c \<Rightarrow> Some (tableId, col_name c)
                 | None \<Rightarrow> map_of m0 (columnKey tableId columnId)))"
  using assms(1)
proof (induction tbls arbitrary: m0)
  case Nil
  then show ?case by (simp add: findTable_def)
next
  case (Cons t tbls)
  from Cons.prems have wf: "wfGraph tbls" and dc: "distinct (map col_id (tbl_columns t))"
    and kf: "CHR '':'' \<notin> set (tbl_id t)" and nin0: "tbl_id t \<notin> tbl_id ` set tbls"
    by (auto simp: wfGraph_def)
  have nin: "\<forall>y \<in> set tbls. tbl_id y \<noteq> tbl_id t"
  proof
    fix y assume "y \<in> set tbls"
    then have "tbl_id y \<in> tbl_id ` set tbls" by (rule imageI)
    with nin0 show "tbl_id y \<noteq> tbl_id t" by auto
  qed
  have none: "tbl_id t = tableId \<Longrightarrow> findTable tbls tableId = None"
    using nin by (auto simp: findTable_def find_None_iff)
  show ?case
    using Cons.IH[OF wf] columnFold_lookup[OF dc kf assms(2)] none
    by (auto simp: findTable_def findColumn_def split: option.splits)
qed

lemma columnNameMap_lookup:
  assumes "wfGraph tbls" "CHR '':'' \<notin> set tableId"
  shows "map_of (snd (lookupMaps tbls)) (columnKey tableId columnId)
         = (case findTable tbls tableId of
              None \<Rightarrow> None
            | Some t \<Rightarrow> map_option (\<lambda>c. (tableId, col_name c)) (findColumn t columnId))"
  unfolding lookupMaps_def snd_fold_populateTable
  using columnNameMap_fold_lookup[OF assms, of "[]" columnId]
  by (simp split: option.splits)

lemma findTable_Some: "findTable tbls tid = Some t \<Longrightarrow> t \<in> set tbls \<and> tbl_id t = tid"
  unfolding findTable_def by (auto simp: find_Some_iff)

lemma findTable_keyFree:
  "wfGraph tbls \<Longrightarrow> findTable tbls tid = Some t \<Longrightarrow> CHR '':'' \<notin> set tid"
  using findTable_Some by (fastforce simp: wfGraph_def)

text \<open>One step of the relation loop, in terms of the endpoints.\<close>

lemma addRelation_survives:
  assumes "wfGraph tbls"
  shows "addRelation (fst (lookupMaps tbls)) (snd (lookupMaps tbls)) r m =
     (if survives tbls r
      then (case sourceKey tbls r of
              Some fk \<Rightarrow> objSet (columnKey (toTableId r) (toColumnId r)) fk m
            | None \<Rightarrow> m)
      else m)"
proof (cases "findTable tbls (fromTableId r)")
  case None
  then show ?thesis
    by (simp add: addRelation_def tableNameMap_lookup[OF assms] survives_def endpoint_def)
next
  case s: (Some ft)
  note kf1 = findTable_keyFree[OF assms s]
  show ?thesis
  proof (cases "findTable tbls (toTableId r)")
    case None
    then show ?thesis
      by (simp add: addRelation_def tableNameMap_lookup[OF assms] survives_def endpoint_def
          split: option.splits)
  next
    case t: (Some tt)
    note kf2 = findTable_keyFree[OF assms t]
    show ?thesis
      by (auto simp: addRelation_def tableNameMap_lookup[OF assms]
          columnNameMap_lookup[OF assms kf1] columnNameMap_lookup[OF assms kf2]
          survives_def endpoint_def sourceKey_def s t split: option.splits)
  qed
qed

lemma find_append:
  "find P (xs @ ys) = (case find P xs of None \<Rightarrow> find P ys | Some x \<Rightarrow> Some x)"
  by (induction xs) auto

lemma find_distinct_key:
  "distinct (map k xs) \<Longrightarrow> x \<in> set xs \<Longrightarrow> find (\<lambda>y. k y = k x) xs = Some x"
  by (induction xs) (auto simp: image_iff)

lemma normalizeTable_objSet:
  "normalizeTable fkm table m =
     objSet (tbl_name table)
       \<lparr>t_name = tbl_name table, t_columns = normalizedColumns fkm table\<rparr> m"
  by (simp add: normalizeTable_def normalizedColumns_def)

lemma normalizedTables_lookup:
  assumes "distinct (map tbl_name tbls)" "table \<in> set tbls"
  shows "map_of (fold (normalizeTable fkm) tbls []) (tbl_name table)
         = Some \<lparr>t_name = tbl_name table, t_columns = normalizedColumns fkm table\<rparr>"
proof -
  have "normalizeTable fkm = (\<lambda>t m. objSet (tbl_name t)
       \<lparr>t_name = tbl_name t, t_columns = normalizedColumns fkm t\<rparr> m)"
    by (intro ext) (rule normalizeTable_objSet)
  then show ?thesis
    using map_of_fold_objSet_find[OF assms(1),
        of "\<lambda>t. \<lparr>t_name = tbl_name t, t_columns = normalizedColumns fkm t\<rparr>" "[]"
           "tbl_name table"]
      find_distinct_key[OF assms]
    by simp
qed

lemma normalizedColumns_lookup:
  assumes "distinct (map col_name (tbl_columns table))" "column \<in> set (tbl_columns table)"
  shows "map_of (normalizedColumns fkm table) (col_name column)
         = Some (normalizeColumn fkm table column)"
  unfolding normalizedColumns_def
  using map_of_fold_objSet_find[OF assms(1), of "normalizeColumn fkm table" "[]" "col_name column"]
    find_distinct_key[OF assms]
  by simp

lemma foreignKeyMap_last:
  assumes "wfGraph tbls"
  shows "map_of (buildForeignKeyMap tbls rels) key =
     (case find (\<lambda>r. survives tbls r \<and> columnKey (toTableId r) (toColumnId r) = key) (rev rels) of
        Some r \<Rightarrow> sourceKey tbls r
      | None \<Rightarrow> None)"
proof (induction rels rule: rev_induct)
  case Nil
  then show ?case by (simp add: buildForeignKeyMap_def)
next
  case (snoc r rels)
  have s: "survives tbls r \<Longrightarrow> \<exists>fk. sourceKey tbls r = Some fk"
    by (auto simp: survives_def sourceKey_def split: option.splits)
  from snoc show ?case
    using s by (auto simp: buildForeignKeyMap_def Let_def addRelation_survives[OF assms]
        map_of_objSet split: option.splits)
qed

lemma survives_target:
  "survives tbls r \<Longrightarrow> \<exists>t. findTable tbls (toTableId r) = Some t"
  by (auto simp: survives_def endpoint_def split: option.splits)

text \<open>
  Claim C10. In a well-formed editor graph, let \<open>r\<close> be the last relation of the
  relations array that survives the filter and targets a given column (no surviving
  relation after it has the same target). Then the canonical column built for the
  target carries the foreign key derived from \<open>r\<close>: the names of the table and the
  column at the source of \<open>r\<close>. The field holds one value, so the metadata of every
  earlier relation with the same target is gone. When table names, and the column
  names of the target's table, are unique, that column is the one stored in the
  normalized schema under these names.
\<close>

theorem normalize_last_relation_wins:
  assumes "wfGraph tbls"
    and "relations = earlier @ r # later"
    and "survives tbls r"
    and "\<forall>r' \<in> set later. survives tbls r' \<longrightarrow> \<not> sameTarget r' r"
    and "findTable tbls (toTableId r) = Some table"
    and "findColumn table (toColumnId r) = Some column"
  shows "sourceKey tbls r \<noteq> None
     \<and> n_foreignKey (normalizeColumn (buildForeignKeyMap tbls relations) table column)
         = sourceKey tbls r
     \<and> (distinct (map tbl_name tbls) \<and> distinct (map col_name (tbl_columns table)) \<longrightarrow>
          (\<exists>nt nc. map_of (tables (normalizeSchema tbls relations ps)) (tbl_name table) = Some nt
             \<and> map_of (t_columns nt) (col_name column) = Some nc
             \<and> n_foreignKey nc = sourceKey tbls r))"
proof -
  let ?fkm = "buildForeignKeyMap tbls relations"
  let ?key = "columnKey (toTableId r) (toColumnId r)"
  let ?P = "\<lambda>r'. survives tbls r' \<and> columnKey (toTableId r') (toColumnId r') = ?key"
  from assms(3) have sk: "sourceKey tbls r \<noteq> None"
    by (auto simp: survives_def sourceKey_def split: option.splits)
  have kfr: "CHR '':'' \<notin> set (toTableId r)" by (rule findTable_keyFree[OF assms(1,5)])
  have "\<not> ?P r'" if "r' \<in> set later" for r'
  proof
    assume p: "?P r'"
    then obtain t' where "findTable tbls (toTableId r') = Some t'" using survives_target by blast
    then have "CHR '':'' \<notin> set (toTableId r')" by (rule findTable_keyFree[OF assms(1)])
    with p kfr have "sameTarget r' r" by (simp add: columnKey_inject sameTarget_def)
    with assms(4) that p show False by blast
  qed
  then have "find ?P (rev later) = None" by (simp add: find_None_iff)
  then have "find ?P (rev relations) = Some r"
    using assms(3) by (simp add: assms(2) find_append)
  then have m: "map_of ?fkm ?key = sourceKey tbls r"
    by (simp add: foreignKeyMap_last[OF assms(1)])
  from assms(5,6) have ids: "tbl_id table = toTableId r" "col_id column = toColumnId r"
    and tin: "table \<in> set tbls" and cin: "column \<in> set (tbl_columns table)"
    by (auto simp: findTable_def findColumn_def find_Some_iff)
  have nc: "n_foreignKey (normalizeColumn ?fkm table column) = sourceKey tbls r"
    by (simp add: normalizeColumn_def ids m)
  have "\<exists>nt nc. map_of (tables (normalizeSchema tbls relations ps)) (tbl_name table) = Some nt
             \<and> map_of (t_columns nt) (col_name column) = Some nc
             \<and> n_foreignKey nc = sourceKey tbls r"
    if dn: "distinct (map tbl_name tbls)" and dc: "distinct (map col_name (tbl_columns table))"
  proof -
    show ?thesis
      using normalizedTables_lookup[OF dn tin, of "buildForeignKeyMap tbls relations"]
        normalizedColumns_lookup[OF dc cin, of "buildForeignKeyMap tbls relations"] nc
      by (simp add: normalizeSchema_def Let_def)
  qed
  with sk nc show ?thesis by blast
qed

text \<open>Two relations, from \<open>users.id\<close> and then from \<open>accounts.id\<close>, target
  \<open>posts.owner_id\<close>, and an orphaned relation follows: the column references
  \<open>accounts.id\<close>.\<close>

theorem normalize_last_relation_wins_witness:
  "wfGraph editorTables
   \<and> survives editorTables relationFromUsers \<and> survives editorTables relationFromAccounts
   \<and> sameTarget relationFromUsers relationFromAccounts
   \<and> \<not> survives editorTables orphanRelation
   \<and> sourceKey editorTables relationFromAccounts = Some \<lparr>fk_table = ''accounts'', fk_column = ''id''\<rparr>
   \<and> n_foreignKey (normalizeColumn
        (buildForeignKeyMap editorTables [relationFromUsers, relationFromAccounts, orphanRelation])
        postsEditorTable ownerColumn) = Some \<lparr>fk_table = ''accounts'', fk_column = ''id''\<rparr>"
proof -
  have w: "wfGraph editorTables" by code_simp
  have s1: "survives editorTables relationFromUsers" by code_simp
  have s2: "survives editorTables relationFromAccounts" by code_simp
  have st: "sameTarget relationFromUsers relationFromAccounts" by code_simp
  have s3: "\<not> survives editorTables orphanRelation" by code_simp
  have sk: "sourceKey editorTables relationFromAccounts
            = Some \<lparr>fk_table = ''accounts'', fk_column = ''id''\<rparr>" by code_simp
  have ft: "findTable editorTables (toTableId relationFromAccounts) = Some postsEditorTable"
    by code_simp
  have fc: "findColumn postsEditorTable (toColumnId relationFromAccounts) = Some ownerColumn"
    by code_simp
  have later: "\<forall>r' \<in> set [orphanRelation].
                 survives editorTables r' \<longrightarrow> \<not> sameTarget r' relationFromAccounts"
    using s3 by simp
  have split: "[relationFromUsers, relationFromAccounts, orphanRelation]
               = [relationFromUsers] @ relationFromAccounts # [orphanRelation]" by simp
  from normalize_last_relation_wins[OF w split s2 later ft fc,
      where ps = "None :: (string \<times> unit) list option"] sk
  have "n_foreignKey (normalizeColumn
        (buildForeignKeyMap editorTables [relationFromUsers, relationFromAccounts, orphanRelation])
        postsEditorTable ownerColumn) = Some \<lparr>fk_table = ''accounts'', fk_column = ''id''\<rparr>"
    by simp
  with w s1 s2 st s3 sk show ?thesis by blast
qed

section \<open>The round trip through the canonical schema\<close>





lemma upt_shift: "[n..<n + Suc l] = n # [Suc n..<Suc n + l]"
  by (simp add: upt_conv_Cons)



lemma freshColumns_Nil [simp]: "freshColumns gen n [] = []"
  by (simp add: freshColumns_def)

lemma freshColumnMap_Nil [simp]: "freshColumnMap gen n [] = []"
  by (simp add: freshColumnMap_def)


































lemma roundTrip_eval:
  "es_tables (roundTrip testGen editorTables [relationFromUsers]) =
     [\<lparr>tbl_id = ''u'', tbl_name = ''users'',
       tbl_columns = [mkEditorColumn ''ux'' ''id'' ''int'' True]\<rparr>,
      \<lparr>tbl_id = ''uxx'', tbl_name = ''accounts'',
       tbl_columns = [mkEditorColumn ''uxxx'' ''id'' ''int'' True]\<rparr>,
      \<lparr>tbl_id = ''uxxxx'', tbl_name = ''posts'',
       tbl_columns = [mkEditorColumn ''uxxxxx'' ''id'' ''int'' True,
                      mkEditorColumn ''uxxxxxx'' ''owner_id'' ''int'' False]\<rparr>]"
  "es_relations (roundTrip testGen editorTables [relationFromUsers]) =
     [\<lparr>rel_id = ''uxxxxxxx'', fromTableId = ''u'', fromColumnId = ''ux'',
       toTableId = ''uxxxx'', toColumnId = ''uxxxxxx''\<rparr>]"
  by code_simp+




text \<open>The other two conditions are needed as well: of two relations into the same
  column only the last is kept, and a relation from a table with the empty name is
  dropped by the normalizer.\<close>

lemma roundtrip_second_source_lost:
  "relationEnds editorTables [relationFromUsers, relationFromAccounts]
     = {((''users'', ''id''), (''posts'', ''owner_id'')),
        ((''accounts'', ''id''), (''posts'', ''owner_id''))}
   \<and> relationEnds (es_tables (roundTrip testGen editorTables [relationFromUsers, relationFromAccounts]))
                   (es_relations (roundTrip testGen editorTables [relationFromUsers, relationFromAccounts]))
     = {((''accounts'', ''id''), (''posts'', ''owner_id''))}"
  by code_simp

lemma roundtrip_unnamed_table_lost:
  "\<not> orphaned unnamedTables relationFromUnnamed
   \<and> relationEnds unnamedTables [relationFromUnnamed] = {(([], ''id''), (''posts'', ''owner_id''))}
   \<and> relationEnds (es_tables (roundTrip testGen unnamedTables [relationFromUnnamed]))
                   (es_relations (roundTrip testGen unnamedTables [relationFromUnnamed])) = {}"
  by code_simp

section \<open>A primary key that is also a foreign key\<close>





lemma clearForeignKey_facts [simp]:
  "fst (clearForeignKey tn cn k ce) = fst ce"
  "sameColumnFacts (snd (clearForeignKey tn cn k ce)) (snd ce)"
  by (simp_all add: clearForeignKey_def sameColumnFacts_def)

lemma clearForeignKeyTable_facts [simp]:
  "fst (clearForeignKeyTable tn cn e) = fst e"
  "t_name (snd (clearForeignKeyTable tn cn e)) = t_name (snd e)"
  "t_columns (snd (clearForeignKeyTable tn cn e)) = map (clearForeignKey tn cn (fst e)) (t_columns (snd e))"
  by (simp_all add: clearForeignKeyTable_def)

lemma tables_dropForeignKey [simp]:
  "tables (dropForeignKey tn cn schema) = map (clearForeignKeyTable tn cn) (tables schema)"
  by (simp add: dropForeignKey_def)

























lemma oneToOne_message:
  "aggregateMessage [fkOnPkMessage ''profiles'' ''user_id''] =
     ''Schema validation failed with 1 error(s):'' @ nl @ nl
     @ ''1. CRITICAL: Column '' @ sq @ ''user_id'' @ sq @ '' in table '' @ sq @ ''profiles'' @ sq
     @ '' is marked as PRIMARY KEY but has foreignKey metadata. ''
     @ ''Foreign keys can only exist on non-primary key columns.''"
  by code_simp


end
